theory Spec2Isabelle
  imports Main "HOL-Library.AList" "HOL-Library.Sublist" "HOL-Library.Char_ord"
    "HOL-Library.List_Lexorder"
begin

section \<open>Python values and the library calls the server uses\<close>

text \<open>
  The server (\<^verbatim>\<open>src/claude_session_manager_mcp/server.py\<close>) works on what
  \<^verbatim>\<open>json.loads\<close> returns: dynamically typed values. They are modelled by the datatype
  \<open>json\<close>; an object is an association list in insertion order, as a Python dict is.
  A character is a HOL \<open>char\<close>, standing for a code point below 256. Numbers are
  integers: the server only tests a number for being zero and orders two of them.
\<close>

datatype json =
    JNull
  | JBool bool
  | JNum int
  | JStr string
  | JArr "json list"
  | JObj "(string \<times> json) list"

text \<open>The exceptions that the modelled code can raise.\<close>

datatype exn =
    AttributeError
  | TypeError
  | KeyError
  | JSONDecodeError
  | ReadError
  | FileExistsError

definition bind_exn :: "exn + 'a \<Rightarrow> ('a \<Rightarrow> exn + 'b) \<Rightarrow> exn + 'b" where
  "bind_exn m f = (case m of Inl e \<Rightarrow> Inl e | Inr v \<Rightarrow> f v)"

text \<open>\<^verbatim>\<open>x.get(k, d)\<close>: \<open>dict_get\<close> on the items of a dict; on a value, only a dict
  has the method.\<close>

definition dict_get :: "(string \<times> json) list \<Rightarrow> string \<Rightarrow> json \<Rightarrow> json" where
  "dict_get kvs k d = (case map_of kvs k of None \<Rightarrow> d | Some v \<Rightarrow> v)"

fun py_get :: "json \<Rightarrow> string \<Rightarrow> json \<Rightarrow> exn + json" where
  "py_get (JObj kvs) k d = Inr (dict_get kvs k d)"
| "py_get _ k d = Inl AttributeError"

text \<open>\<^verbatim>\<open>isinstance(x, dict)\<close>.\<close>

fun is_dict :: "json \<Rightarrow> bool" where
  "is_dict (JObj kvs) = True"
| "is_dict _ = False"

text \<open>The truth value of \<^verbatim>\<open>if x:\<close>.\<close>

fun py_truthy :: "json \<Rightarrow> bool" where
  "py_truthy JNull = False"
| "py_truthy (JBool b) = b"
| "py_truthy (JNum n) = (n \<noteq> 0)"
| "py_truthy (JStr s) = (s \<noteq> [])"
| "py_truthy (JArr xs) = (xs \<noteq> [])"
| "py_truthy (JObj kvs) = (kvs \<noteq> [])"

text \<open>
  \<^verbatim>\<open>for item in x\<close>: a list yields its elements, a string its characters (each a
  string of length one), a dict its keys; anything else is not iterable.
\<close>

fun py_iter :: "json \<Rightarrow> exn + json list" where
  "py_iter (JArr xs) = Inr xs"
| "py_iter (JStr s) = Inr (map (\<lambda>c. JStr [c]) s)"
| "py_iter (JObj kvs) = Inr (map (\<lambda>kv. JStr (fst kv)) kvs)"
| "py_iter _ = Inl TypeError"

subsection \<open>Strings\<close>

abbreviation NL :: char where
  "NL \<equiv> CHR 0x0A"

abbreviation CR :: char where
  "CR \<equiv> CHR 0x0D"

text \<open>
  \<^verbatim>\<open>str.isspace\<close> on the code points below 256: tab to carriage return, the four
  separators U+001C to U+001F, the space, U+0085 and U+00A0.
\<close>

definition is_space :: "char \<Rightarrow> bool" where
  "is_space c = (let n = (of_char c :: nat) in
     (9 \<le> n \<and> n \<le> 13) \<or> (28 \<le> n \<and> n \<le> 32) \<or> n = 133 \<or> n = 160)"

text \<open>\<^verbatim>\<open>s.strip()\<close>.\<close>

definition strip :: "string \<Rightarrow> string" where
  "strip s = rev (dropWhile is_space (rev (dropWhile is_space s)))"

text \<open>\<^verbatim>\<open>x.strip()\<close> on a value: only a string has the method.\<close>

fun py_strip :: "json \<Rightarrow> exn + string" where
  "py_strip (JStr s) = Inr (strip s)"
| "py_strip _ = Inl AttributeError"

text \<open>\<^verbatim>\<open>p in s\<close> for two strings: \<open>p\<close> occurs in \<open>s\<close>.\<close>

fun contains :: "string \<Rightarrow> string \<Rightarrow> bool" where
  "contains p [] = (p = [])"
| "contains p (c # cs) = (prefix p (c # cs) \<or> contains p cs)"

text \<open>\<^verbatim>\<open>s.split(p)[0]\<close> for a non-empty \<open>p\<close>: the text before the first occurrence of
  \<open>p\<close>, the whole of \<open>s\<close> when there is none.\<close>

fun before :: "string \<Rightarrow> string \<Rightarrow> string" where
  "before p [] = []"
| "before p (c # cs) = (if prefix p (c # cs) then [] else c # before p cs)"

text \<open>
  \<^verbatim>\<open>p in x\<close> for a value \<open>x\<close>: a substring test on a string, membership on a list,
  a key test on a dict, a TypeError otherwise.
\<close>

fun py_in :: "string \<Rightarrow> json \<Rightarrow> exn + bool" where
  "py_in p (JStr s) = Inr (contains p s)"
| "py_in p (JArr xs) = Inr (JStr p \<in> set xs)"
| "py_in p (JObj kvs) = Inr (p \<in> fst ` set kvs)"
| "py_in p _ = Inl TypeError"

text \<open>
  \<^verbatim>\<open>a < b\<close>: strings are ordered lexicographically by code point, numbers (and
  booleans, which are numbers in Python) by value; every other pair the server can
  compare raises TypeError. (Two arrays are compared element by element in Python;
  that case is not modelled and is treated as the other mismatches are.)
\<close>

fun py_num :: "json \<Rightarrow> int option" where
  "py_num (JNum n) = Some n"
| "py_num (JBool b) = Some (if b then 1 else 0)"
| "py_num _ = None"

fun py_less :: "json \<Rightarrow> json \<Rightarrow> exn + bool" where
  "py_less (JStr a) (JStr b) = Inr (a < b)"
| "py_less a b = (case (py_num a, py_num b) of
     (Some m, Some n) \<Rightarrow> Inr (m < n)
   | _ \<Rightarrow> Inl TypeError)"

subsection \<open>The two regular expressions\<close>

text \<open>
  \<^verbatim>\<open>re.sub(r'<ide_[^>]*>.*?</ide_[^>]*>', '', text, flags=re.DOTALL)\<close>.
  A match starts at \<^verbatim>\<open><ide_\<close>; the opening tag ends at the next \<^verbatim>\<open>>\<close>; the lazy
  \<^verbatim>\<open>.*?\<close> stops at the first \<^verbatim>\<open></ide_\<close> after it, and the closing tag ends at the
  next \<^verbatim>\<open>>\<close>. \<open>after_gt s\<close> is the text after the first \<^verbatim>\<open>>\<close> of \<open>s\<close>, and
  \<open>after_close s\<close> the text after the first closing tag of \<open>s\<close>; \<open>ide_match s\<close> is
  the length of the match at the start of \<open>s\<close>.
\<close>

fun after_gt :: "string \<Rightarrow> string option" where
  "after_gt [] = None"
| "after_gt (c # cs) = (if c = CHR ''>'' then Some cs else after_gt cs)"

fun after_close :: "string \<Rightarrow> string option" where
  "after_close [] = None"
| "after_close (c # cs) =
     (if prefix ''</ide_'' (c # cs) then after_gt (drop 6 (c # cs)) else after_close cs)"

definition ide_match :: "string \<Rightarrow> nat option" where
  "ide_match s =
     (if prefix ''<ide_'' s then
        (case after_gt (drop 5 s) of
           None \<Rightarrow> None
         | Some r \<Rightarrow>
             (case after_close r of
                None \<Rightarrow> None
              | Some r' \<Rightarrow> Some (length s - length r')))
      else None)"

text \<open>\<open>sub_ide k s\<close>: the substitution on \<open>s\<close> with \<open>k\<close> characters of a match still
  to drop.\<close>

fun sub_ide :: "nat \<Rightarrow> string \<Rightarrow> string" where
  "sub_ide k [] = []"
| "sub_ide (Suc k) (c # cs) = sub_ide k cs"
| "sub_ide 0 (c # cs) =
     (case ide_match (c # cs) of
        Some n \<Rightarrow> sub_ide (n - 1) cs
      | None \<Rightarrow> c # sub_ide 0 cs)"

definition remove_ide_tags :: "string \<Rightarrow> string" where
  "remove_ide_tags s = sub_ide 0 s"

text \<open>
  \<^verbatim>\<open>re.sub(r'^[^\n]+\n\n', '', old_text)\<close>: without the MULTILINE flag \<^verbatim>\<open>^\<close> matches
  at the start only, so at most one match is removed: a non-empty run of characters
  other than the line feed, followed by two line feeds.
\<close>

definition strip_title_prefix :: "string \<Rightarrow> string" where
  "strip_title_prefix s =
     (let l = takeWhile (\<lambda>c. c \<noteq> NL) s; r = dropWhile (\<lambda>c. c \<noteq> NL) s
      in if l \<noteq> [] \<and> prefix [NL, NL] r then drop 2 r else s)"

text \<open>\<^verbatim>\<open>x\<close> passed to \<^verbatim>\<open>re.sub\<close> as the subject: a string, or TypeError.\<close>

fun py_strip_title_prefix :: "json \<Rightarrow> exn + string" where
  "py_strip_title_prefix (JStr s) = Inr (strip_title_prefix s)"
| "py_strip_title_prefix _ = Inl TypeError"


section \<open>Session files\<close>

text \<open>
  A session file is read with \<^verbatim>\<open>open(path, 'r', encoding='utf-8')\<close> and iterated
  line by line. \<open>Regular t\<close> is a file whose bytes decode to the text \<open>t\<close>: every
  read of it succeeds. \<open>Broken n ls\<close> is a file of \<open>n\<close> bytes whose read delivers
  the lines \<open>ls\<close> and then raises (bytes that are not UTF-8, an I/O error; \<open>ls\<close> is
  empty when \<^verbatim>\<open>open\<close> itself fails). An entry of a project directory whose name ends
  in \<^verbatim>\<open>.jsonl\<close> is taken to be a file, never a directory.
\<close>

datatype jsonl_file =
    Regular string
  | Broken nat "string list"

text \<open>The size in bytes of the UTF-8 encoding of a text of code points below 256.\<close>

definition utf8_len :: "string \<Rightarrow> nat" where
  "utf8_len s = sum_list (map (\<lambda>c. if (of_char c :: nat) < 128 then 1 else 2) s)"

fun st_size :: "jsonl_file \<Rightarrow> nat" where
  "st_size (Regular t) = utf8_len t"
| "st_size (Broken n ls) = n"

text \<open>
  Text mode with the default \<^verbatim>\<open>newline=None\<close>: on input \<^verbatim>\<open>\r\n\<close> and a lone
  \<^verbatim>\<open>\r\<close> are translated to \<^verbatim>\<open>\n\<close> before the text is split into lines, each line
  keeping its terminator. On output (POSIX) the text is written as it is.
\<close>

fun universal_newlines :: "string \<Rightarrow> string" where
  "universal_newlines [] = []"
| "universal_newlines [c] = (if c = CR then [NL] else [c])"
| "universal_newlines (c # d # cs) =
     (if c = CR \<and> d = NL then NL # universal_newlines cs
      else if c = CR then NL # universal_newlines (d # cs)
      else c # universal_newlines (d # cs))"

fun split_lines :: "string \<Rightarrow> string list" where
  "split_lines [] = []"
| "split_lines (c # cs) =
     (if c = NL then [NL] # split_lines cs
      else (case split_lines cs of
              [] \<Rightarrow> [[c]]
            | l # ls \<Rightarrow> (c # l) # ls))"

fun read_lines :: "jsonl_file \<Rightarrow> string list" where
  "read_lines (Regular t) = split_lines (universal_newlines t)"
| "read_lines (Broken n ls) = ls"

fun read_fails :: "jsonl_file \<Rightarrow> bool" where
  "read_fails (Regular t) = False"
| "read_fails (Broken n ls) = True"

text \<open>
  The directory tree below the base path \<^verbatim>\<open>~/.claude/projects\<close>: the entries of the
  base directory by name, a directory with its files by name. Project names and
  session ids are single path components. \<^verbatim>\<open>json.loads\<close> and \<^verbatim>\<open>json.dumps\<close> are
  library code: the decoder is a parameter \<open>loads\<close> (\<open>None\<close> is JSONDecodeError),
  the encoder a parameter \<open>dumps\<close>.
\<close>

datatype entry =
    DirE "(string \<times> jsonl_file) list"
  | FileE jsonl_file

type_synonym fs = "(string \<times> entry) list"

type_synonym decoder = "string \<Rightarrow> json option"

text \<open>The file at \<^verbatim>\<open>base_path / project_name / name\<close>, if it exists.\<close>

definition lookup_file :: "fs \<Rightarrow> string \<Rightarrow> string \<Rightarrow> jsonl_file option" where
  "lookup_file fs project_name name =
     (case map_of fs project_name of
        Some (DirE files) \<Rightarrow> map_of files name
      | _ \<Rightarrow> None)"

text \<open>\<^verbatim>\<open>project_path.glob("*.jsonl")\<close> without the names that start with
  \<^verbatim>\<open>agent-\<close>, and \<^verbatim>\<open>Path.stem\<close> of such a name.\<close>

definition session_files :: "fs \<Rightarrow> string \<Rightarrow> (string \<times> jsonl_file) list" where
  "session_files fs project_name =
     (case map_of fs project_name of
        Some (DirE files) \<Rightarrow>
          filter (\<lambda>nf. suffix ''.jsonl'' (fst nf) \<and> \<not> prefix ''agent-'' (fst nf)) files
      | _ \<Rightarrow> [])"

definition stem :: "string \<Rightarrow> string" where
  "stem name = (if name = ''.jsonl'' then name else take (length name - 6) name)"

section \<open>Session summaries\<close>

record summary =
  session_id :: string
  title :: string
  message_count :: nat
  created_at :: json
  updated_at :: json

text \<open>The loop over the content items of a user record (lines 113 to 119): the first
  text item whose stripped, tag-free text is not empty.\<close>

fun first_user_text :: "json list \<Rightarrow> exn + string option" where
  "first_user_text [] = Inr None"
| "first_user_text (JObj kvs # items) =
     (if dict_get kvs ''type'' JNull = JStr ''text'' then
        (case py_strip (dict_get kvs ''text'' (JStr [])) of
           Inl e \<Rightarrow> Inl e
         | Inr t \<Rightarrow>
             (let text = strip (remove_ide_tags t)
              in if text \<noteq> [] then Inr (Some text) else first_user_text items))
      else first_user_text items)"
| "first_user_text (item # items) = first_user_text items"

text \<open>The running minimum and maximum of the timestamps (lines 103 to 108).\<close>

definition fold_timestamp :: "json \<Rightarrow> summary \<Rightarrow> exn + summary" where
  "fold_timestamp timestamp info =
     (if py_truthy timestamp then
        bind_exn (if \<not> py_truthy (created_at info) then Inr True
                  else py_less timestamp (created_at info)) (\<lambda>lt.
        let info1 = (if lt then info\<lparr>created_at := timestamp\<rparr> else info) in
        bind_exn (if \<not> py_truthy (updated_at info1) then Inr True
                  else py_less (updated_at info1) timestamp) (\<lambda>gt.
        Inr (if gt then info1\<lparr>updated_at := timestamp\<rparr> else info1)))
      else Inr info)"

text \<open>One decoded line (lines 99 to 119). The state is \<^verbatim>\<open>info\<close> and
  \<^verbatim>\<open>first_user_content\<close>.\<close>

definition summary_entry ::
  "json \<Rightarrow> summary \<times> string option \<Rightarrow> exn + (summary \<times> string option)" where
  "summary_entry entry st =
     bind_exn (py_get entry ''type'' JNull) (\<lambda>entry_type.
       if entry_type = JStr ''user'' \<or> entry_type = JStr ''assistant'' then
         (let info1 = (fst st)\<lparr>message_count := message_count (fst st) + 1\<rparr> in
          bind_exn (py_get entry ''timestamp'' (JStr [])) (\<lambda>timestamp.
          bind_exn (fold_timestamp timestamp info1) (\<lambda>info2.
            if entry_type = JStr ''user'' \<and> snd st = None then
              bind_exn (py_get entry ''message'' (JObj [])) (\<lambda>message.
              bind_exn (py_get message ''content'' (JArr [])) (\<lambda>content_list.
              bind_exn (py_iter content_list) (\<lambda>items.
              bind_exn (first_user_text items) (\<lambda>r. Inr (info2, r)))))
            else Inr (info2, snd st))))
       else Inr st)"

fun summary_lines ::
  "decoder \<Rightarrow> string list \<Rightarrow> summary \<times> string option \<Rightarrow> exn + (summary \<times> string option)" where
  "summary_lines loads [] st = Inr st"
| "summary_lines loads (line # ls) st =
     (let l = strip line in
      if l = [] then summary_lines loads ls st
      else (case loads l of
              None \<Rightarrow> summary_lines loads ls st
            | Some entry \<Rightarrow>
                (case summary_entry entry st of
                   Inl e \<Rightarrow> Inl e
                 | Inr st' \<Rightarrow> summary_lines loads ls st')))"

text \<open>The truncation of the title (lines 123 to 129).\<close>

definition make_title :: "string \<Rightarrow> string" where
  "make_title s =
     (if contains [NL, NL] s then take 100 (before [NL, NL] s)
      else if contains [NL] s then take 100 (before [NL] s)
      else take 100 s)"

definition parse_session_summary :: "decoder \<Rightarrow> string \<Rightarrow> jsonl_file \<Rightarrow> summary option" where
  "parse_session_summary loads sid f =
     (let info = \<lparr>session_id = sid, title = ''Session '' @ take 8 sid, message_count = 0,
                   created_at = JNull, updated_at = JNull\<rparr>
      in case summary_lines loads (read_lines f) (info, None) of
           Inl e \<Rightarrow> None
         | Inr st \<Rightarrow>
             if read_fails f then None
             else
               (let info1 = (case snd st of
                               Some text \<Rightarrow> (fst st)\<lparr>title := make_title text\<rparr>
                             | None \<Rightarrow> fst st)
                in if message_count info1 > 0 then Some info1 else None))"

text \<open>
  \<^verbatim>\<open>sorted(sessions, key=lambda s: s.get("updated_at", ""), reverse=True)\<close>. Every
  summary has the key \<^verbatim>\<open>updated_at\<close>, so the default of \<^verbatim>\<open>get\<close> is never used and the
  sort key is the stored value, \<^verbatim>\<open>None\<close> included. Sorting two or more elements
  compares every key with another one: it raises TypeError unless all keys are
  strings or all are numbers (keys that are arrays are not modelled, as for
  \<open>py_less\<close>). The sort is stable, also with \<^verbatim>\<open>reverse=True\<close>.
\<close>

fun str_key :: "json \<Rightarrow> string" where
  "str_key (JStr s) = s"
| "str_key _ = []"

fun is_str :: "json \<Rightarrow> bool" where
  "is_str (JStr s) = True"
| "is_str _ = False"

definition sorted_by_updated_at_reverse :: "summary list \<Rightarrow> exn + summary list" where
  "sorted_by_updated_at_reverse ss =
     (if length ss \<le> 1 then Inr ss
      else if list_all (\<lambda>s. is_str (updated_at s)) ss then
        Inr (rev (sort_key (\<lambda>s. str_key (updated_at s)) (rev ss)))
      else if list_all (\<lambda>s. py_num (updated_at s) \<noteq> None) ss then
        Inr (rev (sort_key (\<lambda>s. the (py_num (updated_at s))) (rev ss)))
      else Inl TypeError)"

definition get_sessions :: "decoder \<Rightarrow> fs \<Rightarrow> string \<Rightarrow> exn + summary list" where
  "get_sessions loads fs project_name =
     sorted_by_updated_at_reverse
       (List.map_filter (\<lambda>nf. parse_session_summary loads (stem (fst nf)) (snd nf))
          (session_files fs project_name))"


section \<open>Deleting a session\<close>

text \<open>
  \<open>remove_file\<close> and \<open>put_file\<close> take a file out of a directory and put one into
  it (replacing a file of that name). \<^verbatim>\<open>Path.rename\<close> of a file is the first
  followed by the second: on POSIX a file at the target is replaced silently.
  \<^verbatim>\<open>mkdir(exist_ok=True)\<close> raises FileExistsError when the path exists and is not a
  directory. No other failure of the file system is modelled.
\<close>

definition remove_file :: "fs \<Rightarrow> string \<Rightarrow> string \<Rightarrow> fs" where
  "remove_file fs dir name =
     (case map_of fs dir of
        Some (DirE files) \<Rightarrow> AList.update dir (DirE (AList.delete name files)) fs
      | _ \<Rightarrow> fs)"

definition put_file :: "fs \<Rightarrow> string \<Rightarrow> string \<Rightarrow> jsonl_file \<Rightarrow> fs" where
  "put_file fs dir name f =
     (case map_of fs dir of
        Some (DirE files) \<Rightarrow> AList.update dir (DirE (AList.update name f files)) fs
      | _ \<Rightarrow> fs)"

definition delete_session :: "fs \<Rightarrow> string \<Rightarrow> string \<Rightarrow> (exn + bool) \<times> fs" where
  "delete_session fs project_name sid =
     (case lookup_file fs project_name (sid @ ''.jsonl'') of
        None \<Rightarrow> (Inr False, fs)
      | Some f \<Rightarrow>
          (case map_of fs ''.bak'' of
             Some (FileE g) \<Rightarrow> (Inl FileExistsError, fs)
           | backup_dir \<Rightarrow>
               (let fs1 = (if backup_dir = None then fs @ [(''.bak'', DirE [])] else fs);
                    fs2 = remove_file fs1 project_name (sid @ ''.jsonl'')
                in (Inr True,
                    put_file fs2 ''.bak'' (project_name @ ''_'' @ sid @ ''.jsonl'') f))))"

section \<open>Renaming a session\<close>

text \<open>The loop over the content of an enqueue record (lines 179 to 184).\<close>

fun find_enqueue_text :: "json list \<Rightarrow> exn + string option" where
  "find_enqueue_text [] = Inr None"
| "find_enqueue_text (JObj kvs # items) =
     (if dict_get kvs ''type'' JNull = JStr ''text'' then
        (let txt = dict_get kvs ''text'' (JStr [])
         in if py_truthy txt then
              (case txt of
                 JStr t \<Rightarrow>
                   if \<not> prefix ''<ide_'' (strip t) then Inr (Some t)
                   else find_enqueue_text items
               | _ \<Rightarrow> Inl AttributeError)
            else find_enqueue_text items)
      else find_enqueue_text items)"
| "find_enqueue_text (item # items) = find_enqueue_text items"

text \<open>One decoded line of the first pass (lines 173 to 187). The state is
  \<^verbatim>\<open>first_user_idx\<close> (\<open>None\<close> for -1) and \<^verbatim>\<open>original_message\<close>.\<close>

definition rename_scan_entry ::
  "nat \<Rightarrow> json \<Rightarrow> nat option \<times> string option \<Rightarrow> exn + (nat option \<times> string option)" where
  "rename_scan_entry i entry st =
     bind_exn (py_get entry ''type'' JNull) (\<lambda>entry_type.
     bind_exn
       (if entry_type = JStr ''queue-operation'' \<and> snd st = None then
          bind_exn (py_get entry ''operation'' JNull) (\<lambda>operation.
            if operation = JStr ''enqueue'' then
              bind_exn (py_get entry ''content'' (JArr [])) (\<lambda>content_arr.
              bind_exn (py_iter content_arr) find_enqueue_text)
            else Inr None)
        else Inr (snd st)) (\<lambda>original_message.
       Inr (if entry_type = JStr ''user'' \<and> fst st = None then Some i else fst st,
            original_message)))"

fun rename_scan ::
  "decoder \<Rightarrow> nat \<Rightarrow> string list \<Rightarrow> nat option \<times> string option \<Rightarrow>
     exn + (nat option \<times> string option)" where
  "rename_scan loads i [] st = Inr st"
| "rename_scan loads i (line # ls) st =
     (let l = strip line in
      if l = [] then rename_scan loads (Suc i) ls st
      else (case loads l of
              None \<Rightarrow> rename_scan loads (Suc i) ls st
            | Some entry \<Rightarrow>
                (case rename_scan_entry i entry st of
                   Inl e \<Rightarrow> Inl e
                 | Inr st' \<Rightarrow> rename_scan loads (Suc i) ls st')))"

text \<open>The search for \<^verbatim>\<open>text_idx\<close> (lines 200 to 207): the index of the first text item
  whose text does not start with an IDE tag.\<close>

fun find_plain_text :: "json list \<Rightarrow> exn + nat option" where
  "find_plain_text [] = Inr None"
| "find_plain_text (JObj kvs # items) =
     (if dict_get kvs ''type'' JNull = JStr ''text'' then
        (case py_strip (dict_get kvs ''text'' (JStr [])) of
           Inl e \<Rightarrow> Inl e
         | Inr s \<Rightarrow>
             if prefix ''<ide_'' s then map_sum id (map_option Suc) (find_plain_text items)
             else Inr (Some 0))
      else map_sum id (map_option Suc) (find_plain_text items))"
| "find_plain_text (item # items) = map_sum id (map_option Suc) (find_plain_text items)"

text \<open>The computation of \<^verbatim>\<open>insert_pos\<close> (lines 212 to 217), from index \<open>idx\<close> on.\<close>

fun insert_pos :: "nat \<Rightarrow> nat \<Rightarrow> json list \<Rightarrow> exn + nat" where
  "insert_pos idx pos [] = Inr pos"
| "insert_pos idx pos (JObj kvs # items) =
     (if dict_get kvs ''type'' JNull = JStr ''text'' then
        (case py_strip (dict_get kvs ''text'' (JStr [])) of
           Inl e \<Rightarrow> Inl e
         | Inr s \<Rightarrow> insert_pos (Suc idx) (if prefix ''<ide_'' s then Suc idx else pos) items)
      else insert_pos (Suc idx) pos items)"
| "insert_pos idx pos (item # items) = insert_pos (Suc idx) pos items"

text \<open>The branch with a captured enqueue message (lines 200 to 218). A string or a
  dict as content has no text item and no \<^verbatim>\<open>insert\<close> method.\<close>

definition merge_enqueue :: "string \<Rightarrow> string \<Rightarrow> json \<Rightarrow> exn + json" where
  "merge_enqueue new_title original_message content_list =
     (let new_text = JStr (new_title @ [NL, NL] @ original_message) in
      bind_exn (py_iter content_list) (\<lambda>items.
      bind_exn (find_plain_text items) (\<lambda>text_idx.
        case text_idx of
          Some i \<Rightarrow>
            (case content_list of
               JArr xs \<Rightarrow>
                 (case xs ! i of
                    JObj kvs \<Rightarrow> Inr (JArr (xs[i := JObj (AList.update ''text'' new_text kvs)]))
                  | _ \<Rightarrow> Inl TypeError)
             | _ \<Rightarrow> Inl TypeError)
        | None \<Rightarrow>
            bind_exn (insert_pos 0 0 items) (\<lambda>p.
              case content_list of
                JArr xs \<Rightarrow>
                  Inr (JArr (take p xs
                             @ [JObj [(''type'', JStr ''text''), (''text'', new_text)]]
                             @ drop p xs))
              | _ \<Rightarrow> Inl AttributeError))))"

text \<open>The branch without one (lines 220 to 225).\<close>

fun prefix_first_text :: "string \<Rightarrow> json list \<Rightarrow> exn + json list" where
  "prefix_first_text new_title [] = Inr []"
| "prefix_first_text new_title (JObj kvs # items) =
     (if dict_get kvs ''type'' JNull = JStr ''text'' then
        (case py_strip_title_prefix (dict_get kvs ''text'' (JStr [])) of
           Inl e \<Rightarrow> Inl e
         | Inr old_text \<Rightarrow>
             Inr (JObj (AList.update ''text'' (JStr (new_title @ [NL, NL] @ old_text)) kvs)
                  # items))
      else map_sum id (Cons (JObj kvs)) (prefix_first_text new_title items))"
| "prefix_first_text new_title (item # items) =
     map_sum id (Cons item) (prefix_first_text new_title items)"

fun merge_plain :: "string \<Rightarrow> json \<Rightarrow> exn + json" where
  "merge_plain new_title (JArr xs) = map_sum id JArr (prefix_first_text new_title xs)"
| "merge_plain new_title (JStr s) = Inr (JStr s)"
| "merge_plain new_title (JObj kvs) = Inr (JObj kvs)"
| "merge_plain new_title content_list = Inl TypeError"

text \<open>\<^verbatim>\<open>entry['message']['content'] = content_list\<close> (line 227).\<close>

fun set_message_content :: "json \<Rightarrow> json \<Rightarrow> exn + json" where
  "set_message_content (JObj kvs) content_list =
     (case map_of kvs ''message'' of
        None \<Rightarrow> Inl KeyError
      | Some (JObj mkvs) \<Rightarrow>
          Inr (JObj (AList.update ''message''
                       (JObj (AList.update ''content'' content_list mkvs)) kvs))
      | Some other \<Rightarrow> Inl TypeError)"
| "set_message_content entry content_list = Inl TypeError"

text \<open>The rewrite of the decoded first user record (lines 196 to 227).\<close>

definition rewrite_entry :: "string \<Rightarrow> string option \<Rightarrow> json \<Rightarrow> exn + json" where
  "rewrite_entry new_title original_message entry =
     bind_exn (py_get entry ''message'' (JObj [])) (\<lambda>message.
     bind_exn (py_get message ''content'' (JArr [])) (\<lambda>content_list.
     bind_exn (case original_message of
                 Some m \<Rightarrow> merge_enqueue new_title m content_list
               | None \<Rightarrow> merge_plain new_title content_list) (\<lambda>content_list'.
       set_message_content entry content_list')))"

definition rename_session ::
  "decoder \<Rightarrow> (json \<Rightarrow> string) \<Rightarrow> fs \<Rightarrow> string \<Rightarrow> string \<Rightarrow> string \<Rightarrow> bool \<times> fs" where
  "rename_session loads dumps fs project_name sid new_title =
     (case lookup_file fs project_name (sid @ ''.jsonl'') of
        None \<Rightarrow> (False, fs)
      | Some f \<Rightarrow>
          (let lines = read_lines f in
           if read_fails f then (False, fs)
           else
             (case rename_scan loads 0 lines (None, None) of
                Inl e \<Rightarrow> (False, fs)
              | Inr (None, original_message) \<Rightarrow> (False, fs)
              | Inr (Some first_user_idx, original_message) \<Rightarrow>
                  (case loads (strip (lines ! first_user_idx)) of
                     None \<Rightarrow> (False, fs)
                   | Some entry \<Rightarrow>
                       (case rewrite_entry new_title original_message entry of
                          Inl e \<Rightarrow> (False, fs)
                        | Inr entry' \<Rightarrow>
                            (True,
                             put_file fs project_name (sid @ ''.jsonl'')
                               (Regular (concat
                                  (lines[first_user_idx := dumps entry' @ [NL]])))))))))"

section \<open>Session status and cleanup\<close>

record status =
  is_empty :: bool
  has_invalid_api_key :: bool
  has_messages :: bool
  file_size :: nat

text \<open>One decoded line (lines 258 to 268). An exception leaves the status as it was
  before the line.\<close>

definition status_entry :: "json \<Rightarrow> status \<Rightarrow> exn + status" where
  "status_entry entry st =
     bind_exn (py_get entry ''type'' JNull) (\<lambda>entry_type.
     bind_exn
       (if entry_type = JStr ''summary'' then
          bind_exn (py_get entry ''summary'' (JStr [])) (\<lambda>summary.
          bind_exn (py_in ''Invalid API key'' summary) (\<lambda>found.
            Inr (if found then st\<lparr>has_invalid_api_key := True\<rparr> else st)))
        else Inr st) (\<lambda>st1.
       Inr (if entry_type = JStr ''user'' \<or> entry_type = JStr ''assistant''
            then st1\<lparr>is_empty := False, has_messages := True\<rparr> else st1)))"

text \<open>The scan (lines 251 to 273): \<^verbatim>\<open>except Exception: pass\<close> ends it with the status
  reached so far.\<close>

fun status_lines :: "decoder \<Rightarrow> string list \<Rightarrow> status \<Rightarrow> status" where
  "status_lines loads [] st = st"
| "status_lines loads (line # ls) st =
     (let l = strip line in
      if l = [] then status_lines loads ls st
      else (case loads l of
              None \<Rightarrow> status_lines loads ls st
            | Some entry \<Rightarrow>
                (case status_entry entry st of
                   Inl e \<Rightarrow> st
                 | Inr st' \<Rightarrow> status_lines loads ls st')))"

text \<open>The argument is the file at \<^verbatim>\<open>file_path\<close>, \<open>None\<close> when there is none.\<close>

definition check_session_status :: "decoder \<Rightarrow> jsonl_file option \<Rightarrow> status" where
  "check_session_status loads file_path =
     (let st = \<lparr>is_empty = True, has_invalid_api_key = False, has_messages = False,
                file_size = (case file_path of None \<Rightarrow> 0 | Some f \<Rightarrow> st_size f)\<rparr>
      in case file_path of
           None \<Rightarrow> st
         | Some f \<Rightarrow> if file_size st = 0 then st else status_lines loads (read_lines f) st)"

record session_info =
  info_project_name :: string
  info_session_id :: string
  info_file_size :: nat

record cleanable =
  empty_sessions :: "session_info list"
  invalid_api_key_sessions :: "session_info list"
  total_count :: nat

text \<open>The body of the loop over the files of a project (lines 300 to 312).\<close>

definition cleanable_file ::
  "decoder \<Rightarrow> string \<Rightarrow> string \<times> jsonl_file \<Rightarrow> cleanable \<Rightarrow> cleanable" where
  "cleanable_file loads pname nf result =
     (let st = check_session_status loads (Some (snd nf));
          info = \<lparr>info_project_name = pname, info_session_id = stem (fst nf),
                  info_file_size = file_size st\<rparr>
      in if has_invalid_api_key st \<and> \<not> has_messages st then
           result\<lparr>invalid_api_key_sessions := invalid_api_key_sessions result @ [info]\<rparr>
         else if is_empty st \<or> file_size st = 0 then
           result\<lparr>empty_sessions := empty_sessions result @ [info]\<rparr>
         else result)"

fun is_dir :: "entry \<Rightarrow> bool" where
  "is_dir (DirE files) = True"
| "is_dir (FileE f) = False"

text \<open>The project directories to scan (lines 287 to 290); an empty name counts as no
  name.\<close>

definition project_dirs :: "fs \<Rightarrow> string option \<Rightarrow> string list" where
  "project_dirs fs project_name =
     (if project_name \<noteq> None \<and> project_name \<noteq> Some [] then [the project_name]
      else map fst (filter (\<lambda>de. is_dir (snd de) \<and> \<not> prefix ''.'' (fst de)) fs))"

definition find_cleanable_sessions :: "decoder \<Rightarrow> fs \<Rightarrow> string option \<Rightarrow> cleanable" where
  "find_cleanable_sessions loads fs project_name =
     (let result =
            fold (\<lambda>p. fold (cleanable_file loads p) (session_files fs p))
              (project_dirs fs project_name)
              \<lparr>empty_sessions = [], invalid_api_key_sessions = [], total_count = 0\<rparr>
      in result\<lparr>total_count :=
                  length (empty_sessions result) + length (invalid_api_key_sessions result)\<rparr>)"


section \<open>The cleanup classification\<close>

text \<open>
  The files a cleanup scan visits, each with its project name, and the status and the
  entry the scan computes for one of them. \<open>invalid_candidate\<close> and
  \<open>empty_candidate\<close> are the two classes as the specification words them: invalid
  key and no messages; empty or of size zero, and not already classified invalid.
\<close>

definition scan_status :: "decoder \<Rightarrow> string \<times> string \<times> jsonl_file \<Rightarrow> status" where
  "scan_status loads x = check_session_status loads (Some (snd (snd x)))"

definition scan_info :: "decoder \<Rightarrow> string \<times> string \<times> jsonl_file \<Rightarrow> session_info" where
  "scan_info loads x =
     \<lparr>info_project_name = fst x, info_session_id = stem (fst (snd x)),
      info_file_size = file_size (scan_status loads x)\<rparr>"

definition scanned_files :: "fs \<Rightarrow> string option \<Rightarrow> (string \<times> string \<times> jsonl_file) list" where
  "scanned_files fs project_name =
     concat (map (\<lambda>p. map (Pair p) (session_files fs p)) (project_dirs fs project_name))"

definition invalid_candidate :: "status \<Rightarrow> bool" where
  "invalid_candidate st = (has_invalid_api_key st \<and> \<not> has_messages st)"

definition empty_candidate :: "status \<Rightarrow> bool" where
  "empty_candidate st = ((is_empty st \<or> file_size st = 0) \<and> \<not> invalid_candidate st)"

section \<open>The rename, record by record\<close>

text \<open>
  What the first pass of \<open>rename_session\<close> looks for, stated line by line: the
  lines that decode to a user record, and the message a line captures (the text of
  the first text item of an enqueue record that is a non-empty string and does not
  start, once stripped, with an IDE tag). \<open>captured_message\<close> is the message of the
  first line that captures one. \<open>is_text_item\<close> and \<open>is_ide_text\<close> classify the
  content items; \<open>with_content\<close> is a record with its content replaced and
  \<open>titled_item\<close> the text item that the enqueue branch inserts.
\<close>

definition is_user_entry :: "json \<Rightarrow> bool" where
  "is_user_entry entry = (py_get entry ''type'' JNull = Inr (JStr ''user''))"

definition is_user_line :: "decoder \<Rightarrow> string \<Rightarrow> bool" where
  "is_user_line loads line =
     (strip line \<noteq> [] \<and>
      (case loads (strip line) of Some entry \<Rightarrow> is_user_entry entry | None \<Rightarrow> False))"

fun first_index :: "('a \<Rightarrow> bool) \<Rightarrow> 'a list \<Rightarrow> nat option" where
  "first_index P [] = None"
| "first_index P (x # xs) = (if P x then Some 0 else map_option Suc (first_index P xs))"

fun qualifying_text :: "json \<Rightarrow> string option" where
  "qualifying_text (JObj kvs) =
     (if dict_get kvs ''type'' JNull = JStr ''text'' then
        (case dict_get kvs ''text'' (JStr []) of
           JStr t \<Rightarrow> if t \<noteq> [] \<and> \<not> prefix ''<ide_'' (strip t) then Some t else None
         | _ \<Rightarrow> None)
      else None)"
| "qualifying_text _ = None"

fun enqueue_text :: "json \<Rightarrow> string option" where
  "enqueue_text (JObj kvs) =
     (if dict_get kvs ''type'' JNull = JStr ''queue-operation''
         \<and> dict_get kvs ''operation'' JNull = JStr ''enqueue'' then
        (case py_iter (dict_get kvs ''content'' (JArr [])) of
           Inr items \<Rightarrow>
             (case List.map_filter qualifying_text items of [] \<Rightarrow> None | m # ms \<Rightarrow> Some m)
         | Inl e \<Rightarrow> None)
      else None)"
| "enqueue_text _ = None"

definition line_enqueue_text :: "decoder \<Rightarrow> string \<Rightarrow> string option" where
  "line_enqueue_text loads line =
     (if strip line = [] then None
      else (case loads (strip line) of None \<Rightarrow> None | Some entry \<Rightarrow> enqueue_text entry))"

definition captured_message :: "decoder \<Rightarrow> string list \<Rightarrow> string option" where
  "captured_message loads ls =
     (case List.map_filter (line_enqueue_text loads) ls of [] \<Rightarrow> None | m # ms \<Rightarrow> Some m)"

fun is_text_item :: "json \<Rightarrow> bool" where
  "is_text_item (JObj kvs) = (dict_get kvs ''type'' JNull = JStr ''text'')"
| "is_text_item _ = False"

fun is_ide_text :: "json \<Rightarrow> bool" where
  "is_ide_text (JObj kvs) =
     (dict_get kvs ''type'' JNull = JStr ''text'' \<and>
      (case dict_get kvs ''text'' (JStr []) of
         JStr t \<Rightarrow> prefix ''<ide_'' (strip t)
       | _ \<Rightarrow> False))"
| "is_ide_text _ = False"

definition with_content :: "(string \<times> json) list \<Rightarrow> (string \<times> json) list \<Rightarrow> json \<Rightarrow> json" where
  "with_content kvs mkvs content_list =
     JObj (AList.update ''message'' (JObj (AList.update ''content'' content_list mkvs)) kvs)"

definition titled_item :: "string \<Rightarrow> string \<Rightarrow> json" where
  "titled_item new_title body =
     JObj [(''type'', JStr ''text''), (''text'', JStr (new_title @ [NL, NL] @ body))]"

section \<open>The title rule, as a search over all user text\<close>

text \<open>
  The texts a title can come from: for every line in file order that decodes to a
  user record, the text items of its content in sequence order, each stripped, freed
  of IDE tag blocks and stripped again. A text item whose text is not a string gives
  none.
\<close>

fun item_title_text :: "json \<Rightarrow> string option" where
  "item_title_text (JObj kvs) =
     (if dict_get kvs ''type'' JNull = JStr ''text'' then
        (case dict_get kvs ''text'' (JStr []) of
           JStr t \<Rightarrow> Some (strip (remove_ide_tags (strip t)))
         | _ \<Rightarrow> None)
      else None)"
| "item_title_text _ = None"

fun entry_title_texts :: "json \<Rightarrow> string list" where
  "entry_title_texts (JObj kvs) =
     (if dict_get kvs ''type'' JNull = JStr ''user'' then
        (case bind_exn (py_get (dict_get kvs ''message'' (JObj [])) ''content'' (JArr [])) py_iter of
           Inr items \<Rightarrow> List.map_filter item_title_text items
         | Inl e \<Rightarrow> [])
      else [])"
| "entry_title_texts _ = []"

definition line_title_texts :: "decoder \<Rightarrow> string \<Rightarrow> string list" where
  "line_title_texts loads line =
     (if strip line = [] then []
      else (case loads (strip line) of None \<Rightarrow> [] | Some entry \<Rightarrow> entry_title_texts entry))"

definition title_candidates :: "decoder \<Rightarrow> string list \<Rightarrow> string list" where
  "title_candidates loads ls = concat (map (line_title_texts loads) ls)"

section \<open>Example inputs\<close>

text \<open>
  Lines of session files with the records they decode to, and records with the text
  \<^verbatim>\<open>json.dumps(entry, ensure_ascii=False)\<close> gives for them. \<open>ex_loads\<close> decodes the
  lines it lists and rejects every other line; \<open>ex_dumps\<close> encodes the records it
  lists.
\<close>

definition line_invalid_key :: string where
  \<open>line_invalid_key = ''{"type":"summary","summary":"Invalid API key detected"}''\<close>

definition line_user :: string where
  \<open>line_user = ''{"type":"user"}''\<close>

definition line_user_ts :: string where
  \<open>line_user_ts = ''{"type":"user","timestamp":"2024-05-01T10:00:00Z"}''\<close>

definition line_user_ide :: string where
  \<open>line_user_ide =
     ''{"type":"user","message":{"content":[{"type":"text","text":"<ide_selection>foo</ide_selection>"}]}}''\<close>

definition line_user_hello :: string where
  \<open>line_user_hello =
     ''{"type":"user","message":{"content":[{"type":"text","text":"Hello"}]}}''\<close>

definition entry_hello_titled :: json where
  "entry_hello_titled =
     JObj [(''type'', JStr ''user''),
           (''message'', JObj [(''content'',
              JArr [JObj [(''type'', JStr ''text''),
                          (''text'', JStr (''T'' @ [NL, NL] @ ''Hello''))]])])]"

definition dumped_hello_titled :: string where
  \<open>dumped_hello_titled =
     ''{"type": "user", "message": {"content": [{"type": "text", "text": "T''
     @ [CHR 0x5C] @ ''n'' @ [CHR 0x5C] @ ''nHello"}]}}''\<close>

definition line_user_empty :: string where
  \<open>line_user_empty = ''{"type":"user","message":{"content":[]}}''\<close>

definition entry_user_empty :: json where
  "entry_user_empty =
     JObj [(''type'', JStr ''user''), (''message'', JObj [(''content'', JArr [])])]"

definition dumped_user_empty :: string where
  \<open>dumped_user_empty = ''{"type": "user", "message": {"content": []}}''\<close>

definition line_enqueue :: string where
  \<open>line_enqueue =
     ''{"type":"queue-operation","operation":"enqueue","content":[{"type":"text","text":"Real question"}]}''\<close>

definition entry_enqueue :: json where
  "entry_enqueue =
     JObj [(''type'', JStr ''queue-operation''), (''operation'', JStr ''enqueue''),
           (''content'', JArr [JObj [(''type'', JStr ''text''),
                                     (''text'', JStr ''Real question'')]])]"

definition entry_ide_titled :: json where
  "entry_ide_titled =
     JObj [(''type'', JStr ''user''),
           (''message'', JObj [(''content'',
              JArr [JObj [(''type'', JStr ''text''),
                          (''text'', JStr ''<ide_selection>foo</ide_selection>'')],
                    JObj [(''type'', JStr ''text''),
                          (''text'', JStr (''T'' @ [NL, NL] @ ''Real question''))]])])]"

definition dumped_ide_titled :: string where
  \<open>dumped_ide_titled =
     ''{"type": "user", "message": {"content": [{"type": "text", "text": "<ide_selection>foo</ide_selection>"}, {"type": "text", "text": "T''
     @ [CHR 0x5C] @ ''n'' @ [CHR 0x5C] @ ''nReal question"}]}}''\<close>

definition line_enqueue_later :: string where
  \<open>line_enqueue_later =
     ''{"type":"queue-operation","operation":"enqueue","content":[{"type":"text","text":"Later question"}]}''\<close>

definition entry_enqueue_later :: json where
  "entry_enqueue_later =
     JObj [(''type'', JStr ''queue-operation''), (''operation'', JStr ''enqueue''),
           (''content'', JArr [JObj [(''type'', JStr ''text''),
                                     (''text'', JStr ''Later question'')]])]"

definition ex_loads :: decoder where
  "ex_loads = map_of
     [(line_invalid_key,
       JObj [(''type'', JStr ''summary''), (''summary'', JStr ''Invalid API key detected'')]),
      (line_user, JObj [(''type'', JStr ''user'')]),
      (line_user_ts,
       JObj [(''type'', JStr ''user''), (''timestamp'', JStr ''2024-05-01T10:00:00Z'')]),
      (line_user_ide,
       JObj [(''type'', JStr ''user''),
             (''message'', JObj [(''content'',
                JArr [JObj [(''type'', JStr ''text''),
                            (''text'', JStr ''<ide_selection>foo</ide_selection>'')]])])]),
      (line_user_hello,
       JObj [(''type'', JStr ''user''),
             (''message'', JObj [(''content'',
                JArr [JObj [(''type'', JStr ''text''), (''text'', JStr ''Hello'')]])])]),
      (line_user_empty, entry_user_empty),
      (line_enqueue, entry_enqueue),
      (line_enqueue_later, entry_enqueue_later)]"

definition ex_dumps :: "json \<Rightarrow> string" where
  "ex_dumps j =
     (case map_of [(entry_hello_titled, dumped_hello_titled),
                   (entry_user_empty, dumped_user_empty),
                   (entry_ide_titled, dumped_ide_titled)] j of
        Some s \<Rightarrow> s
      | None \<Rightarrow> [])"

definition ex_fs :: fs where
  "ex_fs = [(''proj'', DirE
      [(''a.jsonl'', Regular []),
       (''b.jsonl'', Regular (line_invalid_key @ [NL])),
       (''c.jsonl'', Regular (line_user @ [NL])),
       (''agent-x.jsonl'', Regular [])])]"

definition ex_fs_two_sessions :: fs where
  "ex_fs_two_sessions = [(''proj'', DirE
      [(''a.jsonl'', Regular (line_user_ts @ [NL])),
       (''b.jsonl'', Regular (line_user @ [NL]))])]"

definition ex_fs_enqueue :: fs where
  "ex_fs_enqueue = [(''proj'', DirE
      [(''s.jsonl'',
        Regular (line_enqueue @ [NL] @ line_user_ide @ [NL] @ line_enqueue_later @ [NL]))])]"

definition ex_fs_enqueue_renamed :: fs where
  "ex_fs_enqueue_renamed = [(''proj'', DirE
      [(''s.jsonl'',
        Regular (line_enqueue @ [NL] @ dumped_ide_titled @ [NL] @ line_enqueue_later @ [NL]))])]"

definition entry_user_text :: "string \<Rightarrow> json" where
  "entry_user_text body =
     JObj [(''type'', JStr ''user''),
           (''message'', JObj [(''content'',
              JArr [JObj [(''type'', JStr ''text''), (''text'', JStr body)]])])]"

definition ex_fs_rename :: fs where
  "ex_fs_rename = [(''proj'', DirE
      [(''s.jsonl'', Regular (line_invalid_key @ [NL] @ line_user_hello @ [NL] @ ''trailing'')),
       (''other.jsonl'', Regular (line_user @ [NL]))])]"

definition ex_fs_renamed :: fs where
  "ex_fs_renamed = [(''proj'', DirE
      [(''s.jsonl'',
        Regular (line_invalid_key @ [NL] @ dumped_hello_titled @ [NL] @ ''trailing'')),
       (''other.jsonl'', Regular (line_user @ [NL]))])]"

section \<open>Properties of \<open>delete_session\<close>\<close>

lemma lookup_put_file:
  "lookup_file (put_file fs d n f) d' n' =
     (case map_of fs d of
        Some (DirE files) \<Rightarrow>
          if d' = d then (if n' = n then Some f else map_of files n')
          else lookup_file fs d' n'
      | _ \<Rightarrow> lookup_file fs d' n')"
  by (auto simp: lookup_file_def put_file_def update_conv' split: option.splits entry.splits)

lemma lookup_remove_file:
  "lookup_file (remove_file fs d n) d' n' =
     (if d' = d \<and> n' = n then None else lookup_file fs d' n')"
  by (auto simp: lookup_file_def remove_file_def update_conv' delete_conv'
      split: option.splits entry.splits)

lemma map_of_remove_file:
  "map_of (remove_file fs d n) d' =
     (case map_of fs d of
        Some (DirE files) \<Rightarrow>
          if d' = d then Some (DirE (AList.delete n files)) else map_of fs d'
      | _ \<Rightarrow> map_of fs d')"
  by (auto simp: remove_file_def update_conv' split: option.splits entry.splits)

lemma lookup_file_SomeD:
  "lookup_file fs d n = Some f \<Longrightarrow>
     \<exists>files. map_of fs d = Some (DirE files) \<and> map_of files n = Some f"
  by (auto simp: lookup_file_def split: option.splits entry.splits)

lemma delete_session_existing:
  assumes "lookup_file fs project_name (sid @ ''.jsonl'') = Some f"
    and "map_of fs ''.bak'' = Some (DirE files)"
  shows "delete_session fs project_name sid =
     (Inr True, put_file (remove_file fs project_name (sid @ ''.jsonl'')) ''.bak''
        (project_name @ ''_'' @ sid @ ''.jsonl'') f)"
  using assms by (simp add: delete_session_def)

text \<open>
  Claim C10. If the backup directory \<^verbatim>\<open>.bak\<close> already holds a file named
  \<^verbatim>\<open>{project_name}_{session_id}.jsonl\<close>, deleting that session again returns true,
  the backup of that name is now the file just deleted (the earlier backup \<open>g\<close> is
  replaced), and the session file is gone from its project.
\<close>

theorem delete_session_overwrites_backup:
  assumes "lookup_file fs project_name (sid @ ''.jsonl'') = Some f"
    and "lookup_file fs ''.bak'' (project_name @ ''_'' @ sid @ ''.jsonl'') = Some g"
  shows "fst (delete_session fs project_name sid) = Inr True
    \<and> lookup_file (snd (delete_session fs project_name sid)) ''.bak''
         (project_name @ ''_'' @ sid @ ''.jsonl'') = Some f
    \<and> lookup_file (snd (delete_session fs project_name sid)) project_name
         (sid @ ''.jsonl'') = None"
proof -
  from assms(2) obtain files where bak: "map_of fs ''.bak'' = Some (DirE files)"
    by (auto dest: lookup_file_SomeD)
  from assms(1) obtain pfiles where proj: "map_of fs project_name = Some (DirE pfiles)"
    by (auto dest: lookup_file_SomeD)
  have eq: "delete_session fs project_name sid =
     (Inr True, put_file (remove_file fs project_name (sid @ ''.jsonl'')) ''.bak''
        (project_name @ ''_'' @ sid @ ''.jsonl'') f)"
    by (rule delete_session_existing [OF assms(1) bak])
  have names: "sid @ ''.jsonl'' \<noteq> project_name @ ''_'' @ sid @ ''.jsonl''"
    if "project_name = ''.bak''"
    using that by (auto dest: arg_cong [where f = length])
  show ?thesis
    unfolding eq using bak proj names
    by (auto simp: lookup_put_file lookup_remove_file map_of_remove_file delete_conv'
        split: option.splits entry.splits)
qed

theorem delete_session_overwrites_backup_witness:
  "lookup_file
     [(''proj'', DirE [(''abc.jsonl'', Regular ''second'')]),
      (''.bak'', DirE [(''proj_abc.jsonl'', Regular ''first'')])]
     ''proj'' (''abc'' @ ''.jsonl'') = Some (Regular ''second'')
   \<and> lookup_file
     [(''proj'', DirE [(''abc.jsonl'', Regular ''second'')]),
      (''.bak'', DirE [(''proj_abc.jsonl'', Regular ''first'')])]
     ''.bak'' (''proj'' @ ''_'' @ ''abc'' @ ''.jsonl'') = Some (Regular ''first'')
   \<and> fst (delete_session
       [(''proj'', DirE [(''abc.jsonl'', Regular ''second'')]),
        (''.bak'', DirE [(''proj_abc.jsonl'', Regular ''first'')])]
       ''proj'' ''abc'') = Inr True
   \<and> lookup_file (snd (delete_session
       [(''proj'', DirE [(''abc.jsonl'', Regular ''second'')]),
        (''.bak'', DirE [(''proj_abc.jsonl'', Regular ''first'')])]
       ''proj'' ''abc'')) ''.bak'' (''proj'' @ ''_'' @ ''abc'' @ ''.jsonl'')
     = Some (Regular ''second'')"
  using delete_session_overwrites_backup
    [of "[(''proj'', DirE [(''abc.jsonl'', Regular ''second'')]),
          (''.bak'', DirE [(''proj_abc.jsonl'', Regular ''first'')])]"
        "''proj''" "''abc''" "Regular ''second''" "Regular ''first''"]
  by (simp add: lookup_file_def)

text \<open>
  Claim C8, as stated, fails: \<open>delete_session\<close> has no handler of its own. With a
  session file in place and \<^verbatim>\<open>.bak\<close> present as a regular file, \<^verbatim>\<open>mkdir\<close> raises
  FileExistsError and the call ends with that exception.
\<close>

theorem delete_session_raises_counterexample:
  "delete_session
     [(''proj'', DirE [(''abc.jsonl'', Regular ''x'')]), (''.bak'', FileE (Regular []))]
     ''proj'' ''abc''
   = (Inl FileExistsError,
      [(''proj'', DirE [(''abc.jsonl'', Regular ''x'')]), (''.bak'', FileE (Regular []))])"
  by (simp add: delete_session_def lookup_file_def)

text \<open>
  Claim C8, amended. When the named session file does not exist, \<open>delete_session\<close>
  returns false and leaves the directory tree as it is (no backup entry is created).
  An error of the backup move is not caught by \<open>delete_session\<close>: when the session
  file exists and \<^verbatim>\<open>.bak\<close> is a regular file, the FileExistsError reaches the caller,
  and nothing has been moved.
\<close>

theorem delete_session_missing_or_raises:
  "(lookup_file fs project_name (sid @ ''.jsonl'') = None \<longrightarrow>
      delete_session fs project_name sid = (Inr False, fs))
   \<and> (lookup_file fs project_name (sid @ ''.jsonl'') = Some f
        \<and> map_of fs ''.bak'' = Some (FileE g) \<longrightarrow>
      delete_session fs project_name sid = (Inl FileExistsError, fs))"
  by (simp add: delete_session_def)

theorem delete_session_missing_or_raises_witness:
  "lookup_file [(''proj'', DirE [])] ''proj'' (''abc'' @ ''.jsonl'') = None
   \<and> delete_session [(''proj'', DirE [])] ''proj'' ''abc''
       = (Inr False, [(''proj'', DirE [])])
   \<and> lookup_file [(''proj'', DirE [(''abc.jsonl'', Regular ''x'')]), (''.bak'', FileE (Regular ''y''))]
       ''proj'' (''abc'' @ ''.jsonl'') = Some (Regular ''x'')
   \<and> map_of [(''proj'', DirE [(''abc.jsonl'', Regular ''x'')]), (''.bak'', FileE (Regular ''y''))]
       ''.bak'' = Some (FileE (Regular ''y''))
   \<and> delete_session
       [(''proj'', DirE [(''abc.jsonl'', Regular ''x'')]), (''.bak'', FileE (Regular ''y''))]
       ''proj'' ''abc''
       = (Inl FileExistsError,
          [(''proj'', DirE [(''abc.jsonl'', Regular ''x'')]), (''.bak'', FileE (Regular ''y''))])"
  using delete_session_missing_or_raises [of "[(''proj'', DirE [])]" "''proj''" "''abc''"]
    delete_session_missing_or_raises
      [of "[(''proj'', DirE [(''abc.jsonl'', Regular ''x'')]), (''.bak'', FileE (Regular ''y''))]"
          "''proj''" "''abc''" "Regular ''x''" "Regular ''y''"]
  by (simp add: lookup_file_def)

section \<open>Properties of the status inspection and the cleanup scan\<close>

lemma cleanable_file_step:
  "cleanable_file loads p nf r =
     r\<lparr>empty_sessions := empty_sessions r
          @ (if empty_candidate (scan_status loads (p, nf)) then [scan_info loads (p, nf)] else []),
        invalid_api_key_sessions := invalid_api_key_sessions r
          @ (if invalid_candidate (scan_status loads (p, nf)) then [scan_info loads (p, nf)] else [])\<rparr>"
  by (cases "invalid_candidate (scan_status loads (p, nf))";
      cases "empty_candidate (scan_status loads (p, nf))")
     (auto simp: cleanable_file_def Let_def scan_info_def scan_status_def
        invalid_candidate_def empty_candidate_def)

lemma fold_cleanable_file:
  "fold (cleanable_file loads p) nfs r =
     r\<lparr>empty_sessions := empty_sessions r
          @ map (scan_info loads) (filter (\<lambda>x. empty_candidate (scan_status loads x)) (map (Pair p) nfs)),
        invalid_api_key_sessions := invalid_api_key_sessions r
          @ map (scan_info loads) (filter (\<lambda>x. invalid_candidate (scan_status loads x)) (map (Pair p) nfs))\<rparr>"
proof (induction nfs arbitrary: r)
  case Nil
  show ?case by simp
next
  case (Cons nf nfs)
  show ?case
    by (simp add: Cons.IH) (simp add: cleanable_file_step)
qed

lemma fold_projects:
  "fold (\<lambda>p. fold (cleanable_file loads p) (sf p)) ps r =
     r\<lparr>empty_sessions := empty_sessions r
          @ map (scan_info loads) (filter (\<lambda>x. empty_candidate (scan_status loads x))
              (concat (map (\<lambda>p. map (Pair p) (sf p)) ps))),
        invalid_api_key_sessions := invalid_api_key_sessions r
          @ map (scan_info loads) (filter (\<lambda>x. invalid_candidate (scan_status loads x))
              (concat (map (\<lambda>p. map (Pair p) (sf p)) ps)))\<rparr>"
proof (induction ps arbitrary: r)
  case Nil
  show ?case by simp
next
  case (Cons p ps)
  show ?case by (simp add: Cons.IH) (simp add: fold_cleanable_file)
qed

lemma buckets:
  "invalid_api_key_sessions (find_cleanable_sessions loads fs pn) =
     map (scan_info loads) (filter (\<lambda>x. invalid_candidate (scan_status loads x)) (scanned_files fs pn))
   \<and> empty_sessions (find_cleanable_sessions loads fs pn) =
     map (scan_info loads) (filter (\<lambda>x. empty_candidate (scan_status loads x)) (scanned_files fs pn))"
  by (simp add: find_cleanable_sessions_def Let_def fold_projects scanned_files_def)

lemma total_le:
  "total_count (find_cleanable_sessions loads fs pn) \<le> length (scanned_files fs pn)"
proof -
  have "length (filter P xs) + length (filter Q xs) \<le> length xs"
    if "\<And>x. \<not> (P x \<and> Q x)" for P Q and xs :: "'a list"
    using that by (induction xs) auto
  from this [of "\<lambda>x. empty_candidate (scan_status loads x)" "\<lambda>x. invalid_candidate (scan_status loads x)"]
  show ?thesis
    using buckets [of loads fs pn]
    by (simp add: find_cleanable_sessions_def Let_def empty_candidate_def)
qed

lemma status_lines_undecodable:
  "\<forall>l \<in> set ls. strip l \<noteq> [] \<longrightarrow> loads (strip l) = None \<Longrightarrow> status_lines loads ls st = st"
  by (induction ls) (auto simp: Let_def)

lemma utf8_len_0: "utf8_len t = 0 \<longleftrightarrow> t = []"
  by (cases t) (auto simp: utf8_len_def)

lemma only_summary:
  assumes "read_lines (Regular t) = [l]" "loads (strip l) = Some (JObj kvs)"
    "map_of kvs ''type'' = Some (JStr ''summary'')" "map_of kvs ''summary'' = Some (JStr s)"
    "contains ''Invalid API key'' s" "strip l \<noteq> []"
  shows "invalid_candidate (check_session_status loads (Some (Regular t)))"
proof -
  have "t \<noteq> []" using assms(1) by auto
  then have "utf8_len t \<noteq> 0" by (simp add: utf8_len_0)
  then show ?thesis using assms
    by (simp add: check_session_status_def Let_def status_entry_def bind_exn_def dict_get_def invalid_candidate_def)
qed


text \<open>
  Claim C7. The scan puts a file into \<^verbatim>\<open>invalid_api_key_sessions\<close> exactly when its
  status has the invalid key and no messages, and into \<^verbatim>\<open>empty_sessions\<close> exactly
  when it is empty or of size zero and was not classified invalid: the two lists are
  the entries of the scanned files filtered by the two classes, in scan order, so a
  file adds at most one entry. In particular a file with a single record, a summary
  whose text contains \<^verbatim>\<open>Invalid API key\<close>, is an invalid candidate and not an empty
  one.
\<close>

theorem find_cleanable_sessions_buckets:
  "invalid_api_key_sessions (find_cleanable_sessions loads fs pn) =
     map (scan_info loads)
       (filter (\<lambda>x. invalid_candidate (scan_status loads x)) (scanned_files fs pn))
   \<and> empty_sessions (find_cleanable_sessions loads fs pn) =
     map (scan_info loads)
       (filter (\<lambda>x. empty_candidate (scan_status loads x)) (scanned_files fs pn))
   \<and> total_count (find_cleanable_sessions loads fs pn) \<le> length (scanned_files fs pn)
   \<and> (read_lines (Regular t) = [l] \<and> strip l \<noteq> [] \<and> loads (strip l) = Some (JObj kvs)
        \<and> map_of kvs ''type'' = Some (JStr ''summary'')
        \<and> map_of kvs ''summary'' = Some (JStr s) \<and> contains ''Invalid API key'' s \<longrightarrow>
      invalid_candidate (check_session_status loads (Some (Regular t)))
      \<and> \<not> empty_candidate (check_session_status loads (Some (Regular t))))"
  using buckets [of loads fs pn] total_le [of loads fs pn] only_summary [of t l loads kvs s]
  by (simp add: empty_candidate_def)

theorem find_cleanable_sessions_buckets_witness:
  "read_lines (Regular (line_invalid_key @ [NL])) = [line_invalid_key @ [NL]]
   \<and> strip (line_invalid_key @ [NL]) \<noteq> []
   \<and> ex_loads (strip (line_invalid_key @ [NL]))
     = Some (JObj [(''type'', JStr ''summary''), (''summary'', JStr ''Invalid API key detected'')])
   \<and> contains ''Invalid API key'' ''Invalid API key detected''
   \<and> invalid_candidate (check_session_status ex_loads (Some (Regular (line_invalid_key @ [NL]))))
   \<and> \<not> empty_candidate (check_session_status ex_loads (Some (Regular (line_invalid_key @ [NL]))))
   \<and> invalid_api_key_sessions (find_cleanable_sessions ex_loads ex_fs None)
     = [\<lparr>info_project_name = ''proj'', info_session_id = ''b'', info_file_size = 56\<rparr>]
   \<and> empty_sessions (find_cleanable_sessions ex_loads ex_fs None)
     = [\<lparr>info_project_name = ''proj'', info_session_id = ''a'', info_file_size = 0\<rparr>]"
proof -
  have h: "read_lines (Regular (line_invalid_key @ [NL])) = [line_invalid_key @ [NL]]
     \<and> strip (line_invalid_key @ [NL]) \<noteq> []
     \<and> ex_loads (strip (line_invalid_key @ [NL]))
       = Some (JObj [(''type'', JStr ''summary''), (''summary'', JStr ''Invalid API key detected'')])
     \<and> contains ''Invalid API key'' ''Invalid API key detected''"
    by code_simp
  have s: "scanned_files ex_fs None =
     [(''proj'', ''a.jsonl'', Regular []),
      (''proj'', ''b.jsonl'', Regular (line_invalid_key @ [NL])),
      (''proj'', ''c.jsonl'', Regular (line_user @ [NL]))]"
    by code_simp
  have c: "scan_status ex_loads (''proj'', ''a.jsonl'', Regular [])
       = \<lparr>is_empty = True, has_invalid_api_key = False, has_messages = False, file_size = 0\<rparr>"
     "scan_status ex_loads (''proj'', ''b.jsonl'', Regular (line_invalid_key @ [NL]))
       = \<lparr>is_empty = True, has_invalid_api_key = True, has_messages = False, file_size = 56\<rparr>"
     "scan_status ex_loads (''proj'', ''c.jsonl'', Regular (line_user @ [NL]))
       = \<lparr>is_empty = False, has_invalid_api_key = False, has_messages = True, file_size = 16\<rparr>"
    by code_simp+
  have st: "stem ''a.jsonl'' = ''a''" "stem ''b.jsonl'' = ''b''"
    by code_simp+
  show ?thesis
    using h find_cleanable_sessions_buckets
      [of ex_loads ex_fs None "line_invalid_key @ [NL]" "line_invalid_key @ [NL]"
        "[(''type'', JStr ''summary''), (''summary'', JStr ''Invalid API key detected'')]"
        "''Invalid API key detected''"]
    by (simp add: s c st scan_info_def invalid_candidate_def empty_candidate_def)
qed


text \<open>
  Claim C9, as stated, fails for a read that breaks off after lines have been
  delivered: the status holds what those lines set. A file of 100 bytes whose read
  delivers a user record and then raises has \<^verbatim>\<open>has_messages\<close> set and is not an empty
  candidate.
\<close>

theorem check_session_status_partial_read_counterexample:
  "check_session_status ex_loads (Some (Broken 100 [line_user @ [NL]]))
     = \<lparr>is_empty = False, has_invalid_api_key = False, has_messages = True, file_size = 100\<rparr>
   \<and> empty_sessions (find_cleanable_sessions ex_loads
        [(''proj'', DirE [(''s.jsonl'', Broken 100 [line_user @ [NL]])])] None) = []"
  by code_simp

text \<open>
  Claim C9, amended. \<open>check_session_status\<close> returns a status for every file. For
  an existing file of non-zero size whose delivered lines are all blank or fail to
  decode (none is delivered when opening fails; all lines of a file that reads well
  may fail to decode), the status keeps the defaults together with the file's size,
  and the cleanup scan adds the file to \<^verbatim>\<open>empty_sessions\<close> and to nothing else.
\<close>

theorem check_session_status_undecodable:
  assumes "st_size f \<noteq> 0"
    and "\<forall>l \<in> set (read_lines f). strip l \<noteq> [] \<longrightarrow> loads (strip l) = None"
  shows "check_session_status loads (Some f)
      = \<lparr>is_empty = True, has_invalid_api_key = False, has_messages = False,
         file_size = st_size f\<rparr>
    \<and> cleanable_file loads p (n, f) r
      = r\<lparr>empty_sessions := empty_sessions r
           @ [\<lparr>info_project_name = p, info_session_id = stem n,
               info_file_size = st_size f\<rparr>]\<rparr>"
proof -
  have st: "check_session_status loads (Some f)
      = \<lparr>is_empty = True, has_invalid_api_key = False, has_messages = False,
         file_size = st_size f\<rparr>"
    using assms by (simp add: check_session_status_def status_lines_undecodable)
  show ?thesis
    by (simp add: cleanable_file_def Let_def st)
qed

theorem check_session_status_undecodable_witness:
  "st_size (Broken 100 []) \<noteq> 0
   \<and> read_lines (Broken 100 []) = []
   \<and> check_session_status ex_loads (Some (Broken 100 []))
      = \<lparr>is_empty = True, has_invalid_api_key = False, has_messages = False, file_size = 100\<rparr>
   \<and> st_size (Regular ''not json'') \<noteq> 0
   \<and> map (\<lambda>l. ex_loads (strip l)) (read_lines (Regular ''not json'')) = [None]
   \<and> check_session_status ex_loads (Some (Regular ''not json''))
      = \<lparr>is_empty = True, has_invalid_api_key = False, has_messages = False, file_size = 8\<rparr>"
proof -
  have a: "st_size (Broken 100 []) \<noteq> 0"
    "\<forall>l \<in> set (read_lines (Broken 100 [])). strip l \<noteq> [] \<longrightarrow> ex_loads (strip l) = None"
    by simp_all
  have b: "st_size (Regular ''not json'') \<noteq> 0"
    "\<forall>l \<in> set (read_lines (Regular ''not json'')). strip l \<noteq> [] \<longrightarrow> ex_loads (strip l) = None"
    by code_simp+
  have c: "utf8_len ''not json'' = 8"
    "map (\<lambda>l. ex_loads (strip l)) (read_lines (Regular ''not json'')) = [None]"
    by code_simp+
  show ?thesis
    using a(1) b(1) c(2) check_session_status_undecodable [OF a, of p n r]
      check_session_status_undecodable [OF b, of p n r]
    by (simp add: c(1))
qed


section \<open>Properties of the session summary\<close>

lemma first_user_text_find:
  "first_user_text items = Inr r \<Longrightarrow>
     r = find (\<lambda>t. t \<noteq> []) (List.map_filter item_title_text items)"
proof (induction items arbitrary: r rule: first_user_text.induct)
  case 1
  then show ?case by (simp add: map_filter_simps)
next
  case (2 kvs items)
  then show ?case
    by (cases "dict_get kvs ''text'' (JStr [])")
       (auto simp: map_filter_simps Let_def split: if_splits sum.splits)
qed (auto simp: map_filter_simps)

lemma fold_timestamp_title:
  "fold_timestamp ts info = Inr info' \<Longrightarrow> title info' = title info \<and> message_count info' = message_count info"
  by (auto simp: fold_timestamp_def bind_exn_def Let_def split: if_splits sum.splits)

lemma summary_entry_inv:
  assumes "summary_entry entry (info, fuc) = Inr (info', fuc')"
  shows "title info' = title info
    \<and> fuc' = (case fuc of Some t \<Rightarrow> Some t
               | None \<Rightarrow> find (\<lambda>t. t \<noteq> []) (entry_title_texts entry))"
proof (cases entry)
  case (JObj kvs)
  show ?thesis
  proof (cases "dict_get kvs ''type'' JNull = JStr ''user'' \<or> dict_get kvs ''type'' JNull = JStr ''assistant''")
    case False
    with assms JObj show ?thesis
      by (auto simp: summary_entry_def bind_exn_def map_filter_simps split: option.splits)
  next
    case True
    with assms JObj show ?thesis
      apply (auto simp: summary_entry_def bind_exn_def Let_def map_filter_simps
          split: sum.splits if_splits option.splits dest!: fold_timestamp_title first_user_text_find)
      done
  qed
qed (use assms in \<open>auto simp: summary_entry_def bind_exn_def\<close>)


lemma find_append_case:
  "find P (xs @ ys) = (case find P xs of Some x \<Rightarrow> Some x | None \<Rightarrow> find P ys)"
  by (induction xs) auto

lemma summary_lines_inv:
  "summary_lines loads ls (info, fuc) = Inr (info', fuc') \<Longrightarrow>
     title info' = title info
     \<and> fuc' = (case fuc of Some t \<Rightarrow> Some t
                | None \<Rightarrow> find (\<lambda>t. t \<noteq> []) (title_candidates loads ls))"
proof (induction ls arbitrary: info fuc)
  case Nil
  then show ?case by (simp add: title_candidates_def split: option.splits)
next
  case (Cons line ls)
  show ?case
  proof (cases "strip line = []")
    case True
    with Cons.prems have "summary_lines loads ls (info, fuc) = Inr (info', fuc')"
      by simp
    from Cons.IH [OF this] True show ?thesis
      by (simp add: title_candidates_def line_title_texts_def split: option.splits)
  next
    case False
    show ?thesis
    proof (cases "loads (strip line)")
      case None
      with False Cons.prems have "summary_lines loads ls (info, fuc) = Inr (info', fuc')"
        by simp
      from Cons.IH [OF this] False None show ?thesis
        by (simp add: title_candidates_def line_title_texts_def split: option.splits)
    next
      case (Some entry)
      from Cons.prems False Some obtain info1 fuc1 where
        e: "summary_entry entry (info, fuc) = Inr (info1, fuc1)"
        and r: "summary_lines loads ls (info1, fuc1) = Inr (info', fuc')"
        by (auto split: sum.splits)
      from summary_entry_inv [OF e] Cons.IH [OF r] False Some show ?thesis
        by (auto simp: title_candidates_def line_title_texts_def find_append_case
            split: option.splits)
    qed
  qed
qed

lemma contains_iff: "contains p s \<longleftrightarrow> (\<exists>a b. s = a @ p @ b)"
proof (induction s)
  case Nil
  show ?case by auto
next
  case (Cons c cs)
  show ?case
  proof
    assume "contains p (c # cs)"
    then consider "prefix p (c # cs)" | "contains p cs" by auto
    then show "\<exists>a b. c # cs = a @ p @ b"
    proof cases
      case 1
      then obtain b where "c # cs = p @ b" by (auto simp: prefix_def)
      then have "c # cs = [] @ p @ b" by simp
      then show ?thesis by blast
    next
      case 2
      with Cons obtain a b where "cs = a @ p @ b" by auto
      then have "c # cs = (c # a) @ p @ b" by simp
      then show ?thesis by blast
    qed
  next
    assume "\<exists>a b. c # cs = a @ p @ b"
    then obtain a b where ab: "c # cs = a @ p @ b" by auto
    show "contains p (c # cs)"
    proof (cases a)
      case Nil
      with ab have "prefix p (c # cs)" by (simp add: prefix_def)
      then show ?thesis by simp
    next
      case (Cons x a')
      with ab have "cs = a' @ p @ b" by simp
      with Cons.IH show ?thesis by auto
    qed
  qed
qed

lemma before_first:
  assumes "s = a @ p @ b" and "\<forall>a' b'. s = a' @ p @ b' \<longrightarrow> length a \<le> length a'"
  shows "before p s = a"
  using assms
proof (induction a arbitrary: s)
  case Nil
  then have "prefix p s" by (simp add: prefix_def)
  then show ?case by (cases s) auto
next
  case (Cons x a)
  have np: "\<not> prefix p s"
  proof
    assume "prefix p s"
    then obtain b' where "s = [] @ p @ b'" by (auto simp: prefix_def)
    with Cons.prems(2) have "length (x # a) \<le> length ([] :: string)" by blast
    then show False by simp
  qed
  have s: "s = x # (a @ p @ b)" using Cons.prems(1) by simp
  have "before p (a @ p @ b) = a"
  proof (rule Cons.IH [OF refl], intro allI impI)
    fix a' b' assume "a @ p @ b = a' @ p @ b'"
    then have "s = (x # a') @ p @ b'" using s by simp
    with Cons.prems(2) have "length (x # a) \<le> length (x # a')" by blast
    then show "length a \<le> length a'" by simp
  qed
  with np s show ?case by simp
qed

lemma before_none: "\<not> contains p s \<Longrightarrow> before p s = s"
  by (induction s) auto

lemma make_title_cases:
  "(t = a @ [NL, NL] @ b \<and> (\<forall>a' b'. t = a' @ [NL, NL] @ b' \<longrightarrow> length a \<le> length a')
      \<longrightarrow> make_title t = take 100 a)
   \<and> ((\<forall>a' b'. t \<noteq> a' @ [NL, NL] @ b') \<and> t = a @ [NL] @ b \<and> NL \<notin> set a
      \<longrightarrow> make_title t = take 100 a)
   \<and> (NL \<notin> set t \<longrightarrow> make_title t = take 100 t)
   \<and> length (make_title t) \<le> 100"
proof (intro conjI impI)
  assume h: "t = a @ [NL, NL] @ b \<and> (\<forall>a' b'. t = a' @ [NL, NL] @ b' \<longrightarrow> length a \<le> length a')"
  then have "contains [NL, NL] t" unfolding contains_iff by blast
  moreover have "before [NL, NL] t = a" using h by (intro before_first) auto
  ultimately show "make_title t = take 100 a" by (simp add: make_title_def)
next
  assume h: "(\<forall>a' b'. t \<noteq> a' @ [NL, NL] @ b') \<and> t = a @ [NL] @ b \<and> NL \<notin> set a"
  then have n: "\<not> contains [NL, NL] t" unfolding contains_iff by blast
  have c: "contains [NL] t" unfolding contains_iff using h by blast
  have "before [NL] t = a"
  proof (rule before_first)
    show "t = a @ [NL] @ b" using h by simp
    show "\<forall>a' b'. t = a' @ [NL] @ b' \<longrightarrow> length a \<le> length a'"
    proof (intro allI impI)
    fix a' b' assume "t = a' @ [NL] @ b'"
    with h have eq: "a @ NL # b = a' @ NL # b'" by simp
    show "length a \<le> length a'"
    proof (rule ccontr)
      assume "\<not> length a \<le> length a'"
      then have "length a' < length a" by simp
      with eq have "a ! length a' = NL"
        by (metis append_Cons nth_append nth_append_length)
      with \<open>length a' < length a\<close> h show False by (metis nth_mem)
    qed
    qed
  qed
  with n c show "make_title t = take 100 a" by (simp add: make_title_def)
next
  assume "NL \<notin> set t"
  then have "\<not> contains [NL, NL] t" "\<not> contains [NL] t"
    unfolding contains_iff by auto
  then show "make_title t = take 100 t" by (simp add: make_title_def)
next
  show "length (make_title t) \<le> 100" by (simp add: make_title_def)
qed


lemma first_occurrence:
  assumes "\<not> contains p (a @ butlast p)"
  shows "\<forall>a' b'. a @ p @ b = a' @ p @ b' \<longrightarrow> length a \<le> length a'"
proof (intro allI impI, rule ccontr)
  fix a' b' assume eq: "a @ p @ b = a' @ p @ b'" and "\<not> length a \<le> length a'"
  then have lt: "length a' < length a" by simp
  have p: "p \<noteq> []"
  proof
    assume "p = []"
    then have "a @ butlast p = [] @ p @ a" by simp
    then have "contains p (a @ butlast p)" unfolding contains_iff by blast
    with assms show False by simp
  qed
  define k where "k = length a + length p - 1"
  have lp: "0 < length p" using p by simp
  have k1: "k - length a = length p - 1" "length p - 1 - length p = 0" "length a \<le> k"
    using lp unfolding k_def by arith+
  have k2: "length a' \<le> k" "length p \<le> k - length a'"
    using lp lt unfolding k_def by arith+
  have "take k (a @ p @ b) = a @ butlast p"
    by (simp add: k1 butlast_conv_take)
  moreover have "take k (a' @ p @ b') = a' @ p @ take (k - length a' - length p) b'"
    by (simp add: k2)
  ultimately have "a @ butlast p = a' @ p @ take (k - length a' - length p) b'"
    using eq by simp
  then have "contains p (a @ butlast p)" unfolding contains_iff by blast
  with assms show False by simp
qed

text \<open>
  Claim C3, as stated, fails: a user record whose text is empty after cleaning does
  not end the search. Here the first user record holds only an IDE tag block and the
  second one the text \<^verbatim>\<open>Hello\<close>; the title is \<^verbatim>\<open>Hello\<close>, not the default
  \<^verbatim>\<open>Session 01234567\<close>.
\<close>

theorem parse_session_summary_title_counterexample:
  "parse_session_summary ex_loads ''0123456789''
     (Regular (line_user_ide @ [NL] @ line_user_hello @ [NL]))
   = Some \<lparr>session_id = ''0123456789'', title = ''Hello'', message_count = 2,
            created_at = JNull, updated_at = JNull\<rparr>"
  by code_simp

text \<open>
  Claim C3, amended. The title of a summary comes from the first text, in file order
  over the user records and in sequence order within a record, that is not empty
  after stripping, removal of the IDE tag blocks and stripping again; when there is
  none, the title is \<^verbatim>\<open>Session\<close>, a space and the first 8 characters of the session
  id. The text found is cut before its first blank-line break if it has one, else
  before its first line break if it has one, else taken whole, and then truncated to
  100 characters.
\<close>

theorem parse_session_summary_title:
  "(parse_session_summary loads sid f = Some info \<longrightarrow>
      title info =
        (case find (\<lambda>t. t \<noteq> []) (title_candidates loads (read_lines f)) of
           None \<Rightarrow> ''Session '' @ take 8 sid
         | Some t \<Rightarrow> make_title t))
   \<and> (t = a @ [NL, NL] @ b \<and> (\<forall>a' b'. t = a' @ [NL, NL] @ b' \<longrightarrow> length a \<le> length a')
      \<longrightarrow> make_title t = take 100 a)
   \<and> ((\<forall>a' b'. t \<noteq> a' @ [NL, NL] @ b') \<and> t = a @ [NL] @ b \<and> NL \<notin> set a
      \<longrightarrow> make_title t = take 100 a)
   \<and> (NL \<notin> set t \<longrightarrow> make_title t = take 100 t)
   \<and> length (make_title t) \<le> 100"
proof -
  have "title info =
        (case find (\<lambda>t. t \<noteq> []) (title_candidates loads (read_lines f)) of
           None \<Rightarrow> ''Session '' @ take 8 sid
         | Some t \<Rightarrow> make_title t)"
    if h: "parse_session_summary loads sid f = Some info"
  proof -
    define info0 where "info0 = \<lparr>session_id = sid, title = ''Session '' @ take 8 sid,
      message_count = 0, created_at = JNull, updated_at = JNull\<rparr>"
    from h obtain st where
      r0: "summary_lines loads (read_lines f) (info0, None) = Inr st"
      and i0: "info = (case snd st of Some text \<Rightarrow> (fst st)\<lparr>title := make_title text\<rparr>
                       | None \<Rightarrow> fst st)"
      by (auto simp: parse_session_summary_def Let_def info0_def split: sum.splits if_splits)
    obtain info1 fuc where st: "st = (info1, fuc)" by (cases st)
    from r0 i0 st have
      r: "summary_lines loads (read_lines f) (info0, None) = Inr (info1, fuc)"
      and i: "info = (case fuc of Some text \<Rightarrow> info1\<lparr>title := make_title text\<rparr> | None \<Rightarrow> info1)"
      by (simp_all split: option.splits)
    from summary_lines_inv [OF r] i show ?thesis
      by (auto simp: info0_def split: option.splits)
  qed
  then show ?thesis using make_title_cases [of t a b] by blast
qed

theorem parse_session_summary_title_witness:
  "parse_session_summary ex_loads ''0123456789''
       (Regular (line_user_hello @ [NL] @ line_user_ide @ [NL]))
     = Some \<lparr>session_id = ''0123456789'', title = ''Hello'', message_count = 2,
              created_at = JNull, updated_at = JNull\<rparr>
   \<and> find (\<lambda>t. t \<noteq> []) (title_candidates ex_loads
         (read_lines (Regular (line_user_hello @ [NL] @ line_user_ide @ [NL])))) = Some ''Hello''
   \<and> make_title ''Hello'' = ''Hello''
   \<and> \<not> contains [NL, NL] (''Fix bug'' @ [NL])
   \<and> make_title (''Fix bug'' @ [NL, NL] @ ''Details here'') = ''Fix bug''
   \<and> \<not> contains [NL, NL] (''Fix bug'' @ [NL] @ ''more'')
   \<and> NL \<notin> set ''Fix bug''
   \<and> make_title (''Fix bug'' @ [NL] @ ''more'') = ''Fix bug''
   \<and> length (make_title (replicate 101 CHR ''a'')) = 100"
proof -
  let ?f = "Regular (line_user_hello @ [NL] @ line_user_ide @ [NL])"
  let ?info = "\<lparr>session_id = ''0123456789'', title = ''Hello'', message_count = 2,
              created_at = JNull, updated_at = JNull\<rparr>"
  have p: "parse_session_summary ex_loads ''0123456789'' ?f = Some ?info"
    by code_simp
  have c: "find (\<lambda>t. t \<noteq> []) (title_candidates ex_loads (read_lines ?f)) = Some ''Hello''"
    by code_simp
  have n1: "\<not> contains [NL, NL] (''Fix bug'' @ [NL])"
    and n2: "\<not> contains [NL, NL] (''Fix bug'' @ [NL] @ ''more'')"
    and n3: "NL \<notin> set ''Fix bug''" and n4: "NL \<notin> set (replicate 101 CHR ''a'')"
    by code_simp+
  have f1: "\<forall>a' b'. ''Fix bug'' @ [NL, NL] @ ''Details here'' = a' @ [NL, NL] @ b'
      \<longrightarrow> length ''Fix bug'' \<le> length a'"
    using first_occurrence [of "[NL, NL]" "''Fix bug''" "''Details here''"] n1 by simp
  have f2: "\<forall>a' b'. ''Fix bug'' @ [NL] @ ''more'' \<noteq> a' @ [NL, NL] @ b'"
    using n2 unfolding contains_iff by simp
  have t1: "make_title (''Fix bug'' @ [NL, NL] @ ''Details here'') = take 100 ''Fix bug''"
    using parse_session_summary_title
      [of ex_loads "''0123456789''" ?f ?info "''Fix bug'' @ [NL, NL] @ ''Details here''"
        "''Fix bug''" "''Details here''"] f1 by blast
  have t2: "make_title (''Fix bug'' @ [NL] @ ''more'') = take 100 ''Fix bug''"
    using parse_session_summary_title
      [of ex_loads "''0123456789''" ?f ?info "''Fix bug'' @ [NL] @ ''more''"
        "''Fix bug''" "''more''"] f2 n3 by blast
  have t3: "make_title (replicate 101 CHR ''a'') = take 100 (replicate 101 CHR ''a'')"
    using parse_session_summary_title
      [of ex_loads "''0123456789''" ?f ?info "replicate 101 CHR ''a''"] n4 by blast
  have t4: "make_title ''Hello'' = ''Hello''"
    by code_simp
  show ?thesis
    using p c n1 n2 n3 t1 t2 t3 t4 by simp
qed


text \<open>
  When every summary has a string as \<^verbatim>\<open>updated_at\<close>, the listing is the summaries
  in descending order of it.
\<close>

lemma sorted_by_updated_at_reverse_strings:
  assumes "list_all (\<lambda>s. is_str (updated_at s)) ss"
  shows "\<exists>r. sorted_by_updated_at_reverse ss = Inr r
    \<and> sorted (rev (map (\<lambda>s. str_key (updated_at s)) r))
    \<and> set r = set ss \<and> length r = length ss"
proof (cases "length ss \<le> 1")
  case True
  then have "sorted (rev (map (\<lambda>s. str_key (updated_at s)) ss))"
    by (cases ss) (auto simp: le_Suc_eq)
  with True show ?thesis by (simp add: sorted_by_updated_at_reverse_def)
next
  case False
  with assms show ?thesis
    by (simp add: sorted_by_updated_at_reverse_def rev_map [symmetric])
qed

text \<open>
  Claim C2 at a failing input: a project with two sessions, one of them without any
  timestamp. Its summary has \<^verbatim>\<open>updated_at\<close> \<^verbatim>\<open>None\<close>, the sort compares \<^verbatim>\<open>None\<close>
  with a string, and \<open>get_sessions\<close> ends with TypeError instead of a listing.
\<close>

theorem get_sessions_null_updated_at_raises:
  "parse_session_summary ex_loads ''a'' (Regular (line_user_ts @ [NL]))
     = Some \<lparr>session_id = ''a'', title = ''Session a'', message_count = 1,
              created_at = JStr ''2024-05-01T10:00:00Z'',
              updated_at = JStr ''2024-05-01T10:00:00Z''\<rparr>
   \<and> parse_session_summary ex_loads ''b'' (Regular (line_user @ [NL]))
     = Some \<lparr>session_id = ''b'', title = ''Session b'', message_count = 1,
              created_at = JNull, updated_at = JNull\<rparr>
   \<and> get_sessions ex_loads ex_fs_two_sessions ''proj'' = Inl TypeError"
  by code_simp


section \<open>Properties of \<open>rename_session\<close>\<close>

lemma first_index_SomeD:
  "first_index P xs = Some i \<Longrightarrow> i < length xs \<and> P (xs ! i) \<and> (\<forall>j<i. \<not> P (xs ! j))"
proof (induction xs arbitrary: i)
  case Nil
  then show ?case by simp
next
  case (Cons x xs)
  show ?case
  proof (cases "P x")
    case True
    with Cons.prems show ?thesis by simp
  next
    case False
    with Cons.prems obtain k where k: "first_index P xs = Some k" and i: "i = Suc k"
      by auto
    from Cons.IH [OF k] False i show ?thesis
      by (auto simp: nth_Cons split: nat.splits)
  qed
qed

lemma find_enqueue_text_spec:
  "find_enqueue_text items = Inr r \<Longrightarrow>
     r = (case List.map_filter qualifying_text items of [] \<Rightarrow> None | m # ms \<Rightarrow> Some m)"
proof (induction items rule: find_enqueue_text.induct)
  case 1
  then show ?case by (simp add: map_filter_simps)
next
  case (2 kvs items)
  then show ?case
    by (cases "dict_get kvs ''text'' (JStr [])")
       (auto simp: map_filter_simps Let_def split: if_splits)
qed (auto simp: map_filter_simps)

lemma rename_scan_entry_spec:
  assumes "rename_scan_entry i entry (idx, om) = Inr (idx', om')"
  shows "idx' = (if idx = None \<and> is_user_entry entry then Some i else idx)
    \<and> om' = (case om of Some m \<Rightarrow> Some m | None \<Rightarrow> enqueue_text entry)"
proof (cases entry)
  case (JObj kvs)
  with assms show ?thesis
    by (auto simp: rename_scan_entry_def bind_exn_def is_user_entry_def
        split: sum.splits if_splits option.splits dest!: find_enqueue_text_spec)
qed (use assms in \<open>auto simp: rename_scan_entry_def bind_exn_def\<close>)

lemma map_filter_Cons_case:
  "(case List.map_filter f (x # xs) of [] \<Rightarrow> None | m # ms \<Rightarrow> Some m) =
     (case f x of Some m \<Rightarrow> Some m
      | None \<Rightarrow> (case List.map_filter f xs of [] \<Rightarrow> None | m # ms \<Rightarrow> Some m))"
  by (simp add: map_filter_simps split: option.splits)

lemma captured_message_Cons:
  "captured_message loads (line # ls) =
     (case line_enqueue_text loads line of Some m \<Rightarrow> Some m
      | None \<Rightarrow> captured_message loads ls)"
  by (simp add: captured_message_def map_filter_simps split: option.splits)

lemma rename_scan_spec:
  "rename_scan loads i ls (idx, om) = Inr (idx', om') \<Longrightarrow>
     idx' = (case idx of Some j \<Rightarrow> Some j
             | None \<Rightarrow> map_option (\<lambda>k. i + k) (first_index (is_user_line loads) ls))
     \<and> om' = (case om of Some m \<Rightarrow> Some m | None \<Rightarrow> captured_message loads ls)"
proof (induction ls arbitrary: i idx om)
  case Nil
  then show ?case by (simp add: captured_message_def map_filter_simps split: option.splits)
next
  case (Cons line ls)
  have shift: "map_option (\<lambda>k. Suc i + k) r = map_option (\<lambda>k. i + k) (map_option Suc r)"
    for r :: "nat option"
    by (cases r) auto
  show ?case
  proof (cases "strip line = [] \<or> loads (strip line) = None")
    case True
    with Cons.prems have "rename_scan loads (Suc i) ls (idx, om) = Inr (idx', om')"
      by (auto simp: Let_def split: if_splits)
    note ih = Cons.IH [OF this]
    have u: "\<not> is_user_line loads line" using True by (auto simp: is_user_line_def)
    have c: "line_enqueue_text loads line = None"
      using True by (auto simp: line_enqueue_text_def)
    show ?thesis
      using ih by (simp add: u c captured_message_Cons shift split: option.splits)
  next
    case False
    then obtain entry where e: "loads (strip line) = Some entry" and s: "strip line \<noteq> []"
      by auto
    from Cons.prems e s obtain idx1 om1 where
      a: "rename_scan_entry i entry (idx, om) = Inr (idx1, om1)"
      and b: "rename_scan loads (Suc i) ls (idx1, om1) = Inr (idx', om')"
      by (auto simp: Let_def split: sum.splits)
    note ih = Cons.IH [OF b]
    note st = rename_scan_entry_spec [OF a]
    have u: "is_user_line loads line = is_user_entry entry"
      using e s by (simp add: is_user_line_def)
    have c: "line_enqueue_text loads line = enqueue_text entry"
      using e s by (simp add: line_enqueue_text_def)
    show ?thesis
    proof (cases "is_user_entry entry")
      case True
      with ih st show ?thesis
        by (cases idx) (auto simp: u c captured_message_Cons shift split: option.splits)
    next
      case False
      with ih st show ?thesis
        by (cases idx) (auto simp: u c captured_message_Cons shift split: option.splits)
    qed
  qed
qed


lemma rename_scan_spec0:
  assumes "rename_scan loads 0 ls (None, None) = Inr (idx, om)"
  shows "idx = first_index (is_user_line loads) ls \<and> om = captured_message loads ls"
proof -
  have "map_option (\<lambda>k. 0 + k) r = r" for r :: "nat option"
    by (cases r) auto
  with rename_scan_spec [OF assms] show ?thesis by simp
qed

lemma rewrite_entry_obj:
  assumes "map_of kvs ''message'' = Some (JObj mkvs)"
  shows "rewrite_entry new_title om (JObj kvs) =
     (case (case om of Some m \<Rightarrow> merge_enqueue new_title m (dict_get mkvs ''content'' (JArr []))
            | None \<Rightarrow> merge_plain new_title (dict_get mkvs ''content'' (JArr []))) of
        Inl e \<Rightarrow> Inl e
      | Inr c \<Rightarrow> Inr (with_content kvs mkvs c))"
proof -
  have m: "dict_get kvs ''message'' (JObj []) = JObj mkvs"
    using assms by (simp add: dict_get_def)
  show ?thesis
    using assms
    by (simp add: rewrite_entry_def bind_exn_def m with_content_def split: sum.splits)
qed

lemma prefix_first_text_none:
  "\<forall>x \<in> set items. \<not> is_text_item x \<Longrightarrow> prefix_first_text new_title items = Inr items"
  by (induction new_title items rule: prefix_first_text.induct) auto

lemma prefix_first_text_first:
  assumes "\<forall>x \<in> set pre. \<not> is_text_item x"
    and "dict_get ikvs ''type'' JNull = JStr ''text''"
    and "dict_get ikvs ''text'' (JStr []) = JStr old"
  shows "prefix_first_text new_title (pre @ JObj ikvs # post) =
     Inr (pre @ JObj (AList.update ''text''
                        (JStr (new_title @ [NL, NL] @ strip_title_prefix old)) ikvs) # post)"
  using assms
proof (induction pre)
  case Nil
  then show ?case by simp
next
  case (Cons x pre)
  then show ?case by (cases x) auto
qed

lemma strip_title_prefix_added:
  assumes "new_title \<noteq> []" and "NL \<notin> set new_title"
  shows "strip_title_prefix (new_title @ [NL, NL] @ body) = body"
proof -
  have "takeWhile (\<lambda>c. c \<noteq> NL) (new_title @ [NL, NL] @ body) = new_title"
    using assms(2) by (subst takeWhile_append2) auto
  moreover have "dropWhile (\<lambda>c. c \<noteq> NL) (new_title @ [NL, NL] @ body) = [NL, NL] @ body"
    using assms(2) by (subst dropWhile_append2) auto
  ultimately show ?thesis
    using assms(1) by (simp add: strip_title_prefix_def Let_def)
qed

lemma dict_get_update:
  "dict_get (AList.update k v kvs) k' d = (if k' = k then v else dict_get kvs k' d)"
  by (simp add: dict_get_def update_conv')

lemma prefix_first_text_idem:
  assumes "new_title \<noteq> []" and "NL \<notin> set new_title"
  shows "prefix_first_text new_title items = Inr items1 \<Longrightarrow>
     prefix_first_text new_title items1 = Inr items1"
proof (induction items arbitrary: items1)
  case Nil
  then show ?case by simp
next
  case (Cons x items)
  show ?case
  proof (cases "is_text_item x")
    case True
    then obtain kvs where x: "x = JObj kvs" and t: "dict_get kvs ''type'' JNull = JStr ''text''"
      by (cases x) auto
    with Cons.prems obtain old where
      old: "dict_get kvs ''text'' (JStr []) = JStr old"
      and i1: "items1 = JObj (AList.update ''text''
                 (JStr (new_title @ [NL, NL] @ strip_title_prefix old)) kvs) # items"
      by (cases "dict_get kvs ''text'' (JStr [])") auto
    show ?thesis
      unfolding i1 using t strip_title_prefix_added [OF assms, of "strip_title_prefix old"]
      by (simp add: dict_get_update)
  next
    case False
    with Cons.prems obtain r where
      r: "prefix_first_text new_title items = Inr r" and i1: "items1 = x # r"
      by (cases x; cases "prefix_first_text new_title items") auto
    from Cons.IH [OF r] False i1 show ?thesis by (cases x) auto
  qed
qed


lemma merge_plain_idem:
  assumes "new_title \<noteq> []" and "NL \<notin> set new_title"
    and "merge_plain new_title c = Inr c1"
  shows "merge_plain new_title c1 = Inr c1"
proof (cases c)
  case (JArr xs)
  with assms(3) obtain r where r: "prefix_first_text new_title xs = Inr r" and c1: "c1 = JArr r"
    by (cases "prefix_first_text new_title xs") auto
  from prefix_first_text_idem [OF assms(1,2) r] c1 show ?thesis by simp
qed (use assms(3) in auto)

lemma rewrite_entry_InrD:
  assumes "rewrite_entry new_title om entry = Inr entry1"
  shows "\<exists>kvs mkvs c. entry = JObj kvs \<and> map_of kvs ''message'' = Some (JObj mkvs)
      \<and> (case om of Some m \<Rightarrow> merge_enqueue new_title m (dict_get mkvs ''content'' (JArr []))
          | None \<Rightarrow> merge_plain new_title (dict_get mkvs ''content'' (JArr []))) = Inr c
      \<and> entry1 = with_content kvs mkvs c"
proof (cases entry)
  case (JObj kvs)
  show ?thesis
  proof (cases "map_of kvs ''message''")
    case None
    with assms JObj show ?thesis
      by (auto simp: rewrite_entry_def bind_exn_def dict_get_def split: sum.splits)
  next
    case (Some v)
    show ?thesis
    proof (cases v)
      case (JObj mkvs)
      with Some have m: "map_of kvs ''message'' = Some (JObj mkvs)" by simp
      from assms \<open>entry = JObj kvs\<close> have
        "rewrite_entry new_title om (JObj kvs) = Inr entry1" by simp
      then show ?thesis
        using m \<open>entry = JObj kvs\<close>
        by (simp add: rewrite_entry_obj [OF m] split: sum.splits)
    qed (use assms Some \<open>entry = JObj kvs\<close> in
          \<open>auto simp: rewrite_entry_def bind_exn_def dict_get_def\<close>)
  qed
qed (use assms in \<open>auto simp: rewrite_entry_def bind_exn_def\<close>)

lemma rewrite_entry_idem:
  assumes "new_title \<noteq> []" and "NL \<notin> set new_title"
    and "rewrite_entry new_title None entry = Inr entry1"
  shows "rewrite_entry new_title None entry1 = Inr entry1"
proof -
  from rewrite_entry_InrD [OF assms(3)] obtain kvs mkvs c where
    e: "entry = JObj kvs" and m: "map_of kvs ''message'' = Some (JObj mkvs)"
    and c: "merge_plain new_title (dict_get mkvs ''content'' (JArr [])) = Inr c"
    and e1: "entry1 = with_content kvs mkvs c"
    by auto
  have m1: "map_of (AList.update ''message'' (JObj (AList.update ''content'' c mkvs)) kvs)
      ''message'' = Some (JObj (AList.update ''content'' c mkvs))"
    by (simp add: update_conv')
  have c1: "merge_plain new_title c = Inr c"
    by (rule merge_plain_idem [OF assms(1,2) c])
  show ?thesis
    unfolding e1 with_content_def rewrite_entry_obj [OF m1]
    by (simp add: dict_get_update c1 with_content_def)
qed

lemma concat_split_lines: "concat (split_lines s) = s"
  by (induction s) (auto split: list.splits)

lemma universal_newlines_id: "CR \<notin> set t \<Longrightarrow> universal_newlines t = t"
  by (induction t rule: universal_newlines.induct) auto

lemma concat_list_update:
  "i < length xs \<Longrightarrow>
     concat (xs[i := y]) = concat (take i xs) @ y @ concat (drop (Suc i) xs)"
  by (simp add: upd_conv_take_nth_drop)

lemma concat_nth_split:
  "i < length xs \<Longrightarrow> concat xs = concat (take i xs) @ xs ! i @ concat (drop (Suc i) xs)"
  by (subst id_take_nth_drop [of i xs]) simp_all

lemma rename_session_success:
  assumes "lookup_file fs project_name (sid @ ''.jsonl'') = Some (Regular t)"
    and "rename_scan loads 0 (read_lines (Regular t)) (None, None) = Inr (Some i, om)"
    and "loads (strip (read_lines (Regular t) ! i)) = Some entry"
    and "rewrite_entry new_title om entry = Inr entry1"
  shows "rename_session loads dumps fs project_name sid new_title =
     (True, put_file fs project_name (sid @ ''.jsonl'')
        (Regular (concat ((read_lines (Regular t))[i := dumps entry1 @ [NL]]))))"
  using assms by (simp add: rename_session_def)

lemma rename_session_TrueD:
  assumes "rename_session loads dumps fs project_name sid new_title = (True, fs')"
  shows "\<exists>t i om entry entry1.
      lookup_file fs project_name (sid @ ''.jsonl'') = Some (Regular t)
    \<and> rename_scan loads 0 (read_lines (Regular t)) (None, None) = Inr (Some i, om)
    \<and> loads (strip (read_lines (Regular t) ! i)) = Some entry
    \<and> rewrite_entry new_title om entry = Inr entry1
    \<and> fs' = put_file fs project_name (sid @ ''.jsonl'')
        (Regular (concat ((read_lines (Regular t))[i := dumps entry1 @ [NL]])))"
proof (cases "lookup_file fs project_name (sid @ ''.jsonl'')")
  case None
  with assms show ?thesis by (simp add: rename_session_def)
next
  case (Some f)
  show ?thesis
  proof (cases f)
    case (Broken n ls)
    with assms Some show ?thesis by (simp add: rename_session_def)
  next
    case (Regular t)
    with assms Some show ?thesis
      by (auto simp: rename_session_def Let_def split: sum.splits option.splits prod.splits)
  qed
qed


lemma find_plain_text_none:
  "\<forall>x \<in> set items. is_text_item x \<longrightarrow> is_ide_text x \<Longrightarrow> find_plain_text items = Inr None"
proof (induction items)
  case Nil
  show ?case by simp
next
  case (Cons x items)
  then have ih: "find_plain_text items = Inr None" by simp
  show ?case
  proof (cases x)
    case (JObj kvs)
    show ?thesis
    proof (cases "dict_get kvs ''type'' JNull = JStr ''text''")
      case True
      with Cons.prems JObj obtain t where "dict_get kvs ''text'' (JStr []) = JStr t"
        and "prefix ''<ide_'' (strip t)"
        by (cases "dict_get kvs ''text'' (JStr [])") auto
      with True JObj ih show ?thesis by simp
    next
      case False
      with JObj ih show ?thesis by simp
    qed
  qed (use ih in auto)
qed

lemma insert_pos_spec:
  "\<forall>x \<in> set items. is_text_item x \<longrightarrow> is_ide_text x \<Longrightarrow>
     insert_pos idx pos items =
       Inr (if \<exists>x \<in> set items. is_ide_text x
            then idx + length (dropWhile (\<lambda>x. \<not> is_ide_text x) (rev items)) else pos)"
proof (induction items arbitrary: idx pos)
  case Nil
  show ?case by simp
next
  case (Cons x items)
  have ih: "insert_pos (Suc idx) pos' items =
       Inr (if \<exists>x \<in> set items. is_ide_text x
            then Suc idx + length (dropWhile (\<lambda>x. \<not> is_ide_text x) (rev items)) else pos')"
    for pos'
    using Cons.prems by (intro Cons.IH) simp
  have dw: "dropWhile (\<lambda>x. \<not> is_ide_text x) (rev items @ [x]) =
      (if \<exists>y \<in> set items. is_ide_text y
       then dropWhile (\<lambda>x. \<not> is_ide_text x) (rev items) @ [x]
       else if is_ide_text x then [x] else [])"
    by (auto simp: dropWhile_append)
  show ?case
  proof (cases "is_text_item x")
    case True
    with Cons.prems have ide: "is_ide_text x" by simp
    then obtain kvs t where x: "x = JObj kvs"
      and ty: "dict_get kvs ''type'' JNull = JStr ''text''"
      and tx: "dict_get kvs ''text'' (JStr []) = JStr t" and p: "prefix ''<ide_'' (strip t)"
      by (cases x; cases "dict_get (case x of JObj kvs \<Rightarrow> kvs) ''text'' (JStr [])") auto
    have step: "insert_pos idx pos (x # items) = insert_pos (Suc idx) (Suc idx) items"
      by (simp add: x ty tx p)
    show ?thesis
      unfolding step ih using ide by (simp add: dw)
  next
    case False
    then have nide: "\<not> is_ide_text x" by (cases x) auto
    from False have step: "insert_pos idx pos (x # items) = insert_pos (Suc idx) pos items"
      by (cases x) auto
    show ?thesis
      unfolding step ih using nide by (simp add: dw)
  qed
qed


lemma with_content_same:
  assumes "map_of kvs ''message'' = Some (JObj mkvs)" and "map_of mkvs ''content'' = Some c"
  shows "with_content kvs mkvs c = JObj kvs"
  using assms by (simp add: with_content_def update_triv)

lemma last_ide_split:
  "\<exists>pre post. items = pre @ post
     \<and> length pre = length (dropWhile (\<lambda>x. \<not> is_ide_text x) (rev items))
     \<and> (pre = [] \<or> is_ide_text (last pre)) \<and> (\<forall>x \<in> set post. \<not> is_ide_text x)"
proof -
  let ?P = "\<lambda>x. \<not> is_ide_text x"
  let ?pre = "rev (dropWhile ?P (rev items))" and ?post = "rev (takeWhile ?P (rev items))"
  have "items = ?pre @ ?post"
    by (metis rev_append rev_rev_ident takeWhile_dropWhile_id)
  moreover have "?pre = [] \<or> is_ide_text (last ?pre)"
  proof (cases "dropWhile ?P (rev items)")
    case Nil
    then show ?thesis by simp
  next
    case (Cons a l)
    then have "dropWhile ?P (rev items) \<noteq> []" by simp
    then have "\<not> ?P (hd (dropWhile ?P (rev items)))"
      by (rule hd_dropWhile)
    with Cons show ?thesis by (simp add: last_rev)
  qed
  moreover have "\<forall>x \<in> set ?post. \<not> is_ide_text x"
    by (auto dest: set_takeWhileD)
  ultimately show ?thesis by (intro exI [of _ ?pre] exI [of _ ?post]) simp
qed

lemma merge_enqueue_insert:
  assumes "\<forall>x \<in> set items. is_text_item x \<longrightarrow> is_ide_text x"
  shows "merge_enqueue new_title m (JArr items) =
     Inr (JArr (take (length (dropWhile (\<lambda>x. \<not> is_ide_text x) (rev items))) items
                @ titled_item new_title m
                # drop (length (dropWhile (\<lambda>x. \<not> is_ide_text x) (rev items))) items))"
proof (cases "\<exists>x \<in> set items. is_ide_text x")
  case True
  then show ?thesis
    using find_plain_text_none [OF assms] insert_pos_spec [OF assms, of 0 0]
    by (simp add: merge_enqueue_def bind_exn_def Let_def titled_item_def)
next
  case False
  then have dw: "dropWhile (\<lambda>x. \<not> is_ide_text x) (rev items) = []"
    by simp
  from False show ?thesis
    unfolding dw
    using find_plain_text_none [OF assms] insert_pos_spec [OF assms, of 0 0]
    by (simp add: merge_enqueue_def bind_exn_def Let_def titled_item_def)
qed


lemma rewrite_entry_first_text:
  assumes "map_of kvs ''message'' = Some (JObj mkvs)"
    and "dict_get mkvs ''content'' (JArr []) = JArr (pre @ JObj ikvs # post)"
    and "\<forall>x \<in> set pre. \<not> is_text_item x"
    and "dict_get ikvs ''type'' JNull = JStr ''text''"
    and "dict_get ikvs ''text'' (JStr []) = JStr old"
  shows "rewrite_entry new_title None (JObj kvs) =
     Inr (with_content kvs mkvs
            (JArr (pre @ JObj (AList.update ''text''
                     (JStr (new_title @ [NL, NL] @ strip_title_prefix old)) ikvs) # post)))"
  by (simp add: rewrite_entry_obj [OF assms(1)] assms(2)
      prefix_first_text_first [OF assms(3,4,5)])

lemma strip_title_prefix_no_prefix:
  assumes "\<forall>l r. old = l @ [NL, NL] @ r \<longrightarrow> l = [] \<or> NL \<in> set l"
  shows "strip_title_prefix old = old"
proof (rule ccontr)
  assume ne: "strip_title_prefix old \<noteq> old"
  let ?l = "takeWhile (\<lambda>c. c \<noteq> NL) old" and ?r = "dropWhile (\<lambda>c. c \<noteq> NL) old"
  from ne have l: "?l \<noteq> []" and p: "prefix [NL, NL] ?r"
    by (auto simp: strip_title_prefix_def Let_def split: if_splits)
  from p obtain r where "?r = [NL, NL] @ r" by (auto simp: prefix_def)
  then have "old = ?l @ [NL, NL] @ r"
    by (metis takeWhile_dropWhile_id)
  with assms have "?l = [] \<or> NL \<in> set ?l" by blast
  with l show False by (auto dest: set_takeWhileD)
qed

text \<open>
  Claim C1, as stated, fails for a file with carriage returns. Reading in text mode
  translates \<^verbatim>\<open>\r\n\<close> to \<^verbatim>\<open>\n\<close>, and the lines are written back as read: here
  the second line, a summary record ending in \<^verbatim>\<open>\r\n\<close>, ends in \<^verbatim>\<open>\n\<close> after the
  rename, although only the first line holds the user record.
\<close>

theorem rename_session_crlf_counterexample:
  "rename_session ex_loads ex_dumps
     [(''proj'', DirE [(''s.jsonl'',
        Regular (line_user_hello @ [CR, NL] @ line_invalid_key @ [CR, NL]))])]
     ''proj'' ''s'' ''T''
   = (True,
      [(''proj'', DirE [(''s.jsonl'',
        Regular (dumped_hello_titled @ [NL] @ line_invalid_key @ [NL]))])])"
  by code_simp

text \<open>
  Claim C1, amended. A successful \<open>rename_session\<close> rewrites exactly one line, the
  line of the first user record: the text of the file as read (with \<^verbatim>\<open>\r\n\<close> and
  \<^verbatim>\<open>\r\<close> translated to \<^verbatim>\<open>\n\<close>) is the lines before that line, the line, and the
  lines after it, and the text written is the same lines before, the re-serialized
  record with a line feed, and the same lines after, trailing content after the last
  complete line included. When the file holds no carriage return the text as read is
  the file's own text, so every other line is the same byte for byte. No other file
  changes.
\<close>

theorem rename_session_rewrites_one_line:
  assumes "rename_session loads dumps fs project_name sid new_title = (True, fs')"
  shows "(\<exists>t i entry1.
      lookup_file fs project_name (sid @ ''.jsonl'') = Some (Regular t)
    \<and> i < length (read_lines (Regular t))
    \<and> is_user_line loads (read_lines (Regular t) ! i)
    \<and> (\<forall>j<i. \<not> is_user_line loads (read_lines (Regular t) ! j))
    \<and> universal_newlines t =
        concat (take i (read_lines (Regular t))) @ read_lines (Regular t) ! i
        @ concat (drop (Suc i) (read_lines (Regular t)))
    \<and> lookup_file fs' project_name (sid @ ''.jsonl'') =
        Some (Regular (concat (take i (read_lines (Regular t))) @ (dumps entry1 @ [NL])
                       @ concat (drop (Suc i) (read_lines (Regular t)))))
    \<and> (CR \<notin> set t \<longrightarrow> universal_newlines t = t))
    \<and> (\<forall>p n. (p, n) \<noteq> (project_name, sid @ ''.jsonl'') \<longrightarrow>
          lookup_file fs' p n = lookup_file fs p n)"
proof -
  from rename_session_TrueD [OF assms] obtain t i om entry entry1 where
    f: "lookup_file fs project_name (sid @ ''.jsonl'') = Some (Regular t)"
    and sc: "rename_scan loads 0 (read_lines (Regular t)) (None, None) = Inr (Some i, om)"
    and fs': "fs' = put_file fs project_name (sid @ ''.jsonl'')
        (Regular (concat ((read_lines (Regular t))[i := dumps entry1 @ [NL]])))"
    by blast
  let ?ls = "read_lines (Regular t)"
  from rename_scan_spec0 [OF sc] have "first_index (is_user_line loads) ?ls = Some i"
    by simp
  from first_index_SomeD [OF this] have
    i: "i < length ?ls" and u: "is_user_line loads (?ls ! i)"
    and n: "\<forall>j<i. \<not> is_user_line loads (?ls ! j)"
    by auto
  from f obtain files where d: "map_of fs project_name = Some (DirE files)"
    by (auto dest: lookup_file_SomeD)
  have old: "universal_newlines t = concat (take i ?ls) @ ?ls ! i @ concat (drop (Suc i) ?ls)"
    using concat_nth_split [OF i] by (simp add: concat_split_lines)
  have new: "lookup_file fs' project_name (sid @ ''.jsonl'') =
      Some (Regular (concat (take i ?ls) @ (dumps entry1 @ [NL]) @ concat (drop (Suc i) ?ls)))"
    unfolding fs' using d i by (simp add: lookup_put_file concat_list_update)
  have other: "\<forall>p n. (p, n) \<noteq> (project_name, sid @ ''.jsonl'') \<longrightarrow>
          lookup_file fs' p n = lookup_file fs p n"
    unfolding fs' using d by (auto simp: lookup_put_file) (simp add: lookup_file_def)
  from f i u n old new other show ?thesis
    using universal_newlines_id by blast
qed


theorem rename_session_rewrites_one_line_witness:
  "rename_session ex_loads ex_dumps ex_fs_rename ''proj'' ''s'' ''T'' = (True, ex_fs_renamed)
   \<and> lookup_file ex_fs_rename ''proj'' (''s'' @ ''.jsonl'')
     = Some (Regular (line_invalid_key @ [NL] @ line_user_hello @ [NL] @ ''trailing''))
   \<and> lookup_file ex_fs_renamed ''proj'' (''s'' @ ''.jsonl'')
     = Some (Regular (line_invalid_key @ [NL] @ dumped_hello_titled @ [NL] @ ''trailing''))
   \<and> lookup_file ex_fs_renamed ''proj'' ''other.jsonl''
     = lookup_file ex_fs_rename ''proj'' ''other.jsonl''"
proof -
  have r: "rename_session ex_loads ex_dumps ex_fs_rename ''proj'' ''s'' ''T''
      = (True, ex_fs_renamed)"
    by code_simp
  have l: "lookup_file ex_fs_rename ''proj'' (''s'' @ ''.jsonl'')
     = Some (Regular (line_invalid_key @ [NL] @ line_user_hello @ [NL] @ ''trailing''))"
    "lookup_file ex_fs_renamed ''proj'' (''s'' @ ''.jsonl'')
     = Some (Regular (line_invalid_key @ [NL] @ dumped_hello_titled @ [NL] @ ''trailing''))"
    by code_simp+
  from rename_session_rewrites_one_line [OF r] have
    "lookup_file ex_fs_renamed ''proj'' ''other.jsonl''
     = lookup_file ex_fs_rename ''proj'' ''other.jsonl''"
    by simp
  with r l show ?thesis by simp
qed


text \<open>
  Claim C4. When the first pass has captured an enqueue message \<open>m\<close> (the message of
  the first line that captures one; a later enqueue record does not replace it) and
  the first user record has a message with a content list in which every text item
  starts, once stripped, with an IDE tag, the rename succeeds and the new content is
  the old one with the item
  \<^verbatim>\<open>{type: text, text: new_title + "\n\n" + m}\<close> inserted right after the last such
  item (at the front when there is none): the items before the new one end with an
  IDE text item, and no IDE text item follows it. In particular, for a record whose
  only text item \<open>x\<close> starts with an IDE tag, \<open>x\<close> keeps its place and the new item
  is placed directly after it.
\<close>

theorem rename_session_inserts_after_ide:
  assumes "lookup_file fs project_name (sid @ ''.jsonl'') = Some (Regular t)"
    and "rename_scan loads 0 (read_lines (Regular t)) (None, None) = Inr (Some i, Some m)"
    and "loads (strip (read_lines (Regular t) ! i)) = Some (JObj kvs)"
    and "map_of kvs ''message'' = Some (JObj mkvs)"
    and "dict_get mkvs ''content'' (JArr []) = JArr items"
    and "\<forall>x \<in> set items. is_text_item x \<longrightarrow> is_ide_text x"
  shows "captured_message loads (read_lines (Regular t)) = Some m
    \<and> (\<exists>pre post. items = pre @ post \<and> (pre = [] \<or> is_ide_text (last pre))
          \<and> (\<forall>x \<in> set post. \<not> is_ide_text x)
          \<and> rename_session loads dumps fs project_name sid new_title =
              (True, put_file fs project_name (sid @ ''.jsonl'')
                 (Regular (concat ((read_lines (Regular t))
                    [i := dumps (with_content kvs mkvs
                            (JArr (pre @ titled_item new_title m # post))) @ [NL]])))))
    \<and> (items = a @ x # b \<and> is_ide_text x \<and> (\<forall>y \<in> set a. \<not> is_text_item y)
          \<and> (\<forall>y \<in> set b. \<not> is_text_item y) \<longrightarrow>
          rename_session loads dumps fs project_name sid new_title =
            (True, put_file fs project_name (sid @ ''.jsonl'')
               (Regular (concat ((read_lines (Regular t))
                  [i := dumps (with_content kvs mkvs
                          (JArr (a @ x # titled_item new_title m # b))) @ [NL]])))))"
proof -
  let ?p = "length (dropWhile (\<lambda>x. \<not> is_ide_text x) (rev items))"
  have cap: "captured_message loads (read_lines (Regular t)) = Some m"
    using rename_scan_spec0 [OF assms(2)] by simp
  have rw: "rewrite_entry new_title (Some m) (JObj kvs) =
      Inr (with_content kvs mkvs (JArr (take ?p items @ titled_item new_title m # drop ?p items)))"
    by (simp add: rewrite_entry_obj [OF assms(4)] assms(5) merge_enqueue_insert [OF assms(6)])
  note rs = rename_session_success [OF assms(1,2,3) rw, of dumps]
  from last_ide_split [of items] obtain pre post where
    sp: "items = pre @ post" and len: "length pre = ?p"
    and pre: "pre = [] \<or> is_ide_text (last pre)" and post: "\<forall>x \<in> set post. \<not> is_ide_text x"
    by blast
  from sp len have tk: "take ?p items = pre" "drop ?p items = post"
    by (metis append_eq_conv_conj)+
  have ex: "\<exists>pre post. items = pre @ post \<and> (pre = [] \<or> is_ide_text (last pre))
          \<and> (\<forall>x \<in> set post. \<not> is_ide_text x)
          \<and> rename_session loads dumps fs project_name sid new_title =
              (True, put_file fs project_name (sid @ ''.jsonl'')
                 (Regular (concat ((read_lines (Regular t))
                    [i := dumps (with_content kvs mkvs
                            (JArr (pre @ titled_item new_title m # post))) @ [NL]]))))"
    using sp pre post rs unfolding tk by blast
  have part: "rename_session loads dumps fs project_name sid new_title =
            (True, put_file fs project_name (sid @ ''.jsonl'')
               (Regular (concat ((read_lines (Regular t))
                  [i := dumps (with_content kvs mkvs
                          (JArr (a @ x # titled_item new_title m # b))) @ [NL]]))))"
    if h: "items = a @ x # b \<and> is_ide_text x \<and> (\<forall>y \<in> set a. \<not> is_text_item y)
          \<and> (\<forall>y \<in> set b. \<not> is_text_item y)"
  proof -
    have nb: "\<forall>y \<in> set b. \<not> is_ide_text y"
    proof
      fix y assume "y \<in> set b"
      with h have "\<not> is_text_item y" by blast
      then show "\<not> is_ide_text y" by (cases y) auto
    qed
    have "rev items = rev b @ x # rev a" using h by simp
    then have "dropWhile (\<lambda>x. \<not> is_ide_text x) (rev items) = x # rev a"
      using nb h by (simp add: dropWhile_append3)
    then have p: "?p = length (a @ [x])" by simp
    have "take ?p items = a @ [x]" "drop ?p items = b"
      unfolding p using h by simp_all
    with rs show ?thesis by simp
  qed
  from cap ex part show ?thesis by blast
qed


theorem rename_session_inserts_after_ide_witness:
  "lookup_file ex_fs_enqueue ''proj'' (''s'' @ ''.jsonl'')
     = Some (Regular (line_enqueue @ [NL] @ line_user_ide @ [NL] @ line_enqueue_later @ [NL]))
   \<and> rename_scan ex_loads 0
        (read_lines (Regular (line_enqueue @ [NL] @ line_user_ide @ [NL]
                              @ line_enqueue_later @ [NL])))
        (None, None) = Inr (Some 1, Some ''Real question'')
   \<and> captured_message ex_loads
        (read_lines (Regular (line_enqueue @ [NL] @ line_user_ide @ [NL]
                              @ line_enqueue_later @ [NL]))) = Some ''Real question''
   \<and> is_ide_text (JObj [(''type'', JStr ''text''),
                         (''text'', JStr ''<ide_selection>foo</ide_selection>'')])
   \<and> rename_session ex_loads ex_dumps ex_fs_enqueue ''proj'' ''s'' ''T''
     = (True, ex_fs_enqueue_renamed)"
proof -
  let ?t = "line_enqueue @ [NL] @ line_user_ide @ [NL] @ line_enqueue_later @ [NL]"
  let ?ide = "JObj [(''type'', JStr ''text''),
                    (''text'', JStr ''<ide_selection>foo</ide_selection>'')]"
  let ?mkvs = "[(''content'', JArr [?ide])]"
  let ?kvs = "[(''type'', JStr ''user''), (''message'', JObj ?mkvs)]"
  have a1: "lookup_file ex_fs_enqueue ''proj'' (''s'' @ ''.jsonl'') = Some (Regular ?t)"
    by code_simp
  have a2: "rename_scan ex_loads 0 (read_lines (Regular ?t)) (None, None)
      = Inr (Some 1, Some ''Real question'')"
    by code_simp
  have a3: "ex_loads (strip (read_lines (Regular ?t) ! 1)) = Some (JObj ?kvs)"
    by code_simp
  have a4: "map_of ?kvs ''message'' = Some (JObj ?mkvs)"
    by simp
  have a5: "dict_get ?mkvs ''content'' (JArr []) = JArr [?ide]"
    by (simp add: dict_get_def)
  have ide: "is_ide_text ?ide"
    by code_simp
  then have a6: "\<forall>x \<in> set [?ide]. is_text_item x \<longrightarrow> is_ide_text x"
    by simp
  have a7: "[?ide] = [] @ ?ide # [] \<and> is_ide_text ?ide \<and> (\<forall>y \<in> set []. \<not> is_text_item y)
          \<and> (\<forall>y \<in> set []. \<not> is_text_item y)"
    using ide by simp
  have a8: "put_file ex_fs_enqueue ''proj'' (''s'' @ ''.jsonl'')
      (Regular (concat ((read_lines (Regular ?t))
         [1 := ex_dumps (with_content ?kvs ?mkvs
                  (JArr ([] @ ?ide # titled_item ''T'' ''Real question'' # []))) @ [NL]])))
      = ex_fs_enqueue_renamed"
    by code_simp
  note inst = rename_session_inserts_after_ide [OF a1 a2 a3 a4 a5 a6,
      of ex_dumps "''T''" "[]" ?ide "[]"]
  from inst a7 have
    c: "captured_message ex_loads (read_lines (Regular ?t)) = Some ''Real question''"
    and r: "rename_session ex_loads ex_dumps ex_fs_enqueue ''proj'' ''s'' ''T''
      = (True, ex_fs_enqueue_renamed)"
    unfolding a8 by blast+
  from a1 a2 c ide r show ?thesis by blast
qed


text \<open>
  Claim C5, as stated, fails: the line of the first user record is always replaced
  by the re-serialization of its record and a line feed. A file whose only line is a
  user record with empty content, written without spaces and without a final line
  feed, has a different line after the rename.
\<close>

theorem rename_session_reserializes_counterexample:
  "rename_session ex_loads ex_dumps
     [(''proj'', DirE [(''s.jsonl'', Regular line_user_empty)])] ''proj'' ''s'' ''T''
   = (True, [(''proj'', DirE [(''s.jsonl'', Regular (dumped_user_empty @ [NL]))])])
   \<and> dumped_user_empty @ [NL] \<noteq> line_user_empty"
  by code_simp

text \<open>
  Claim C5, amended. Without a captured enqueue message and for a first user record
  with a message that has a content list: when the list has a text item, the rename
  succeeds and changes only the first one (its text becomes the new title, a blank
  line, and the old text without a leading line-and-blank-line prefix; every other
  item and field stays); when the list has no text item at all, the record itself is
  left unchanged, its line is replaced by the re-serialization of that same record
  followed by a line feed, and the operation still reports success.
\<close>

theorem rename_session_without_enqueue:
  assumes "lookup_file fs project_name (sid @ ''.jsonl'') = Some (Regular t)"
    and "rename_scan loads 0 (read_lines (Regular t)) (None, None) = Inr (Some i, None)"
    and "loads (strip (read_lines (Regular t) ! i)) = Some (JObj kvs)"
    and "map_of kvs ''message'' = Some (JObj mkvs)"
    and "map_of mkvs ''content'' = Some (JArr items)"
  shows "(items = pre @ JObj ikvs # post \<and> (\<forall>x \<in> set pre. \<not> is_text_item x)
          \<and> dict_get ikvs ''type'' JNull = JStr ''text''
          \<and> dict_get ikvs ''text'' (JStr []) = JStr old \<longrightarrow>
          rename_session loads dumps fs project_name sid new_title =
            (True, put_file fs project_name (sid @ ''.jsonl'')
               (Regular (concat ((read_lines (Regular t))
                  [i := dumps (with_content kvs mkvs
                     (JArr (pre @ JObj (AList.update ''text''
                        (JStr (new_title @ [NL, NL] @ strip_title_prefix old)) ikvs) # post)))
                     @ [NL]])))))
    \<and> ((\<forall>x \<in> set items. \<not> is_text_item x) \<longrightarrow>
          rewrite_entry new_title None (JObj kvs) = Inr (JObj kvs)
          \<and> rename_session loads dumps fs project_name sid new_title =
            (True, put_file fs project_name (sid @ ''.jsonl'')
               (Regular (concat ((read_lines (Regular t))[i := dumps (JObj kvs) @ [NL]])))))"
proof (intro conjI impI)
  assume h: "items = pre @ JObj ikvs # post \<and> (\<forall>x \<in> set pre. \<not> is_text_item x)
          \<and> dict_get ikvs ''type'' JNull = JStr ''text''
          \<and> dict_get ikvs ''text'' (JStr []) = JStr old"
  have c: "dict_get mkvs ''content'' (JArr []) = JArr (pre @ JObj ikvs # post)"
    using assms(5) h by (simp add: dict_get_def)
  have "rewrite_entry new_title None (JObj kvs) =
     Inr (with_content kvs mkvs
            (JArr (pre @ JObj (AList.update ''text''
                     (JStr (new_title @ [NL, NL] @ strip_title_prefix old)) ikvs) # post)))"
    using h by (intro rewrite_entry_first_text [OF assms(4) c]) simp_all
  from rename_session_success [OF assms(1,2,3) this]
  show "rename_session loads dumps fs project_name sid new_title =
            (True, put_file fs project_name (sid @ ''.jsonl'')
               (Regular (concat ((read_lines (Regular t))
                  [i := dumps (with_content kvs mkvs
                     (JArr (pre @ JObj (AList.update ''text''
                        (JStr (new_title @ [NL, NL] @ strip_title_prefix old)) ikvs) # post)))
                     @ [NL]]))))" .
next
  assume h: "\<forall>x \<in> set items. \<not> is_text_item x"
  have c: "dict_get mkvs ''content'' (JArr []) = JArr items"
    using assms(5) by (simp add: dict_get_def)
  show r: "rewrite_entry new_title None (JObj kvs) = Inr (JObj kvs)"
    by (simp add: rewrite_entry_obj [OF assms(4)] c prefix_first_text_none [OF h]
        with_content_same [OF assms(4,5)])
  from rename_session_success [OF assms(1,2,3) r]
  show "rename_session loads dumps fs project_name sid new_title =
            (True, put_file fs project_name (sid @ ''.jsonl'')
               (Regular (concat ((read_lines (Regular t))[i := dumps (JObj kvs) @ [NL]]))))" .
qed

theorem rename_session_without_enqueue_witness:
  "lookup_file ex_fs_rename ''proj'' (''s'' @ ''.jsonl'')
     = Some (Regular (line_invalid_key @ [NL] @ line_user_hello @ [NL] @ ''trailing''))
   \<and> rename_scan ex_loads 0
        (read_lines (Regular (line_invalid_key @ [NL] @ line_user_hello @ [NL] @ ''trailing'')))
        (None, None) = Inr (Some 1, None)
   \<and> ex_loads (strip (read_lines
        (Regular (line_invalid_key @ [NL] @ line_user_hello @ [NL] @ ''trailing'')) ! 1))
     = Some (entry_user_text ''Hello'')
   \<and> rename_session ex_loads ex_dumps ex_fs_rename ''proj'' ''s'' ''T'' = (True, ex_fs_renamed)
   \<and> lookup_file [(''proj'', DirE [(''s.jsonl'', Regular (line_user_empty @ [NL]))])]
        ''proj'' (''s'' @ ''.jsonl'') = Some (Regular (line_user_empty @ [NL]))
   \<and> rename_scan ex_loads 0 (read_lines (Regular (line_user_empty @ [NL]))) (None, None)
     = Inr (Some 0, None)
   \<and> ex_loads (strip (read_lines (Regular (line_user_empty @ [NL])) ! 0))
     = Some entry_user_empty
   \<and> rewrite_entry ''T'' None entry_user_empty = Inr entry_user_empty
   \<and> rename_session ex_loads ex_dumps
        [(''proj'', DirE [(''s.jsonl'', Regular (line_user_empty @ [NL]))])] ''proj'' ''s'' ''T''
     = (True, [(''proj'', DirE [(''s.jsonl'', Regular (dumped_user_empty @ [NL]))])])"
proof -
  let ?t = "line_invalid_key @ [NL] @ line_user_hello @ [NL] @ ''trailing''"
  let ?kvs = "[(''type'', JStr ''user''),
     (''message'', JObj [(''content'',
        JArr [JObj [(''type'', JStr ''text''), (''text'', JStr ''Hello'')]])])]"
  let ?mkvs = "[(''content'',
        JArr [JObj [(''type'', JStr ''text''), (''text'', JStr ''Hello'')]])]"
  let ?ikvs = "[(''type'', JStr ''text''), (''text'', JStr ''Hello'')]"
  have a1: "lookup_file ex_fs_rename ''proj'' (''s'' @ ''.jsonl'') = Some (Regular ?t)"
    by code_simp
  have a2: "rename_scan ex_loads 0 (read_lines (Regular ?t)) (None, None) = Inr (Some 1, None)"
    by code_simp
  have a3: "ex_loads (strip (read_lines (Regular ?t) ! 1)) = Some (JObj ?kvs)"
    by code_simp
  have a4: "map_of ?kvs ''message'' = Some (JObj ?mkvs)"
    and a5: "map_of ?mkvs ''content'' = Some (JArr [JObj ?ikvs])"
    by simp_all
  have a6: "[JObj ?ikvs] = [] @ JObj ?ikvs # [] \<and> (\<forall>x \<in> set []. \<not> is_text_item x)
          \<and> dict_get ?ikvs ''type'' JNull = JStr ''text''
          \<and> dict_get ?ikvs ''text'' (JStr []) = JStr ''Hello''"
    by (simp add: dict_get_def)
  have a7: "entry_user_text ''Hello'' = JObj ?kvs"
    by (simp add: entry_user_text_def)
  have a8: "put_file ex_fs_rename ''proj'' (''s'' @ ''.jsonl'')
      (Regular (concat ((read_lines (Regular ?t))
         [1 := ex_dumps (with_content ?kvs ?mkvs
             (JArr ([] @ JObj (AList.update ''text''
                (JStr (''T'' @ [NL, NL] @ strip_title_prefix ''Hello'')) ?ikvs) # [])))
             @ [NL]]))) = ex_fs_renamed"
    by code_simp
  from rename_session_without_enqueue [OF a1 a2 a3 a4 a5, of "[]" ?ikvs "[]" "''Hello''"
      ex_dumps "''T''"] a6
  have r1: "rename_session ex_loads ex_dumps ex_fs_rename ''proj'' ''s'' ''T''
      = (True, ex_fs_renamed)"
    unfolding a8 by blast
  let ?fs = "[(''proj'', DirE [(''s.jsonl'', Regular (line_user_empty @ [NL]))])]"
  let ?ekvs = "[(''type'', JStr ''user''), (''message'', JObj [(''content'', JArr [])])]"
  have b1: "lookup_file ?fs ''proj'' (''s'' @ ''.jsonl'') = Some (Regular (line_user_empty @ [NL]))"
    by code_simp
  have b2: "rename_scan ex_loads 0 (read_lines (Regular (line_user_empty @ [NL]))) (None, None)
     = Inr (Some 0, None)"
    by code_simp
  have b3: "ex_loads (strip (read_lines (Regular (line_user_empty @ [NL])) ! 0))
     = Some (JObj ?ekvs)"
    by code_simp
  have b4: "map_of ?ekvs ''message'' = Some (JObj [(''content'', JArr [])])"
    and b5: "map_of [(''content'', JArr [])] ''content'' = Some (JArr [])"
    by simp_all
  have b6: "\<forall>x \<in> set []. \<not> is_text_item x"
    by simp
  have b7: "entry_user_empty = JObj ?ekvs"
    by (simp add: entry_user_empty_def)
  have b8: "put_file ?fs ''proj'' (''s'' @ ''.jsonl'')
      (Regular (concat ((read_lines (Regular (line_user_empty @ [NL])))
         [0 := ex_dumps (JObj ?ekvs) @ [NL]])))
      = [(''proj'', DirE [(''s.jsonl'', Regular (dumped_user_empty @ [NL]))])]"
    by code_simp
  from rename_session_without_enqueue [OF b1 b2 b3 b4 b5, of _ _ _ _ ex_dumps "''T''"] b6
  have r2: "rewrite_entry ''T'' None (JObj ?ekvs) = Inr (JObj ?ekvs)"
    "rename_session ex_loads ex_dumps ?fs ''proj'' ''s'' ''T''
      = (True, [(''proj'', DirE [(''s.jsonl'', Regular (dumped_user_empty @ [NL]))])])"
    unfolding b8 by blast+
  show ?thesis
    using a1 a2 a3 r1 b1 b2 b3 r2 unfolding a7 b7 by blast
qed


text \<open>
  Claim C6, as stated, fails twice. With the empty title (which has no line feed)
  the strip finds no line before the blank line, and the second rename doubles the
  prefix. And a body that itself starts with a line and a blank line loses that
  line at the first rename already.
\<close>

theorem rename_twice_counterexample:
  "rewrite_entry [] None (entry_user_text ''Hello'')
     = Inr (entry_user_text ([NL, NL] @ ''Hello''))
   \<and> rewrite_entry [] None (entry_user_text ([NL, NL] @ ''Hello''))
     = Inr (entry_user_text ([NL, NL, NL, NL] @ ''Hello''))
   \<and> rewrite_entry ''T'' None (entry_user_text (''Hello'' @ [NL, NL] @ ''World''))
     = Inr (entry_user_text (''T'' @ [NL, NL] @ ''World''))"
  by code_simp

text \<open>
  Claim C6, amended. On the branch without an enqueue message and for a non-empty
  title without line feed: the strip removes exactly the added prefix (title and
  blank line) from the start of the text; renaming a record a second time with the
  same title gives the record of the first rename again; the first rename sets the
  first text item's text to the title, a blank line and the old text without a
  leading line-and-blank-line prefix, and that is the old text itself when it does
  not start with a non-empty line followed by a blank line.
\<close>

theorem rename_twice_same_title:
  assumes "new_title \<noteq> []" and "NL \<notin> set new_title"
  shows "strip_title_prefix (new_title @ [NL, NL] @ body) = body
    \<and> (rewrite_entry new_title None entry = Inr entry1 \<longrightarrow>
         rewrite_entry new_title None entry1 = Inr entry1)
    \<and> (map_of kvs ''message'' = Some (JObj mkvs)
         \<and> dict_get mkvs ''content'' (JArr []) = JArr (pre @ JObj ikvs # post)
         \<and> (\<forall>x \<in> set pre. \<not> is_text_item x)
         \<and> dict_get ikvs ''type'' JNull = JStr ''text''
         \<and> dict_get ikvs ''text'' (JStr []) = JStr old \<longrightarrow>
         rewrite_entry new_title None (JObj kvs) =
           Inr (with_content kvs mkvs
                  (JArr (pre @ JObj (AList.update ''text''
                           (JStr (new_title @ [NL, NL] @ strip_title_prefix old)) ikvs) # post))))
    \<and> ((\<forall>l r. old = l @ [NL, NL] @ r \<longrightarrow> l = [] \<or> NL \<in> set l) \<longrightarrow>
         strip_title_prefix old = old)"
  using strip_title_prefix_added [OF assms] rewrite_entry_idem [OF assms]
    rewrite_entry_first_text strip_title_prefix_no_prefix
  by blast

theorem rename_twice_same_title_witness:
  "''T'' \<noteq> [] \<and> NL \<notin> set ''T''
   \<and> strip_title_prefix (''T'' @ [NL, NL] @ ''Hello'') = ''Hello''
   \<and> rewrite_entry ''T'' None (entry_user_text ''Hello'')
       = Inr (entry_user_text (''T'' @ [NL, NL] @ ''Hello''))
   \<and> rewrite_entry ''T'' None (entry_user_text (''T'' @ [NL, NL] @ ''Hello''))
       = Inr (entry_user_text (''T'' @ [NL, NL] @ ''Hello''))
   \<and> strip_title_prefix ''Hello'' = ''Hello''"
proof -
  have t: "''T'' \<noteq> []" "NL \<notin> set ''T''"
    by simp_all
  have r: "rewrite_entry ''T'' None (entry_user_text ''Hello'')
       = Inr (entry_user_text (''T'' @ [NL, NL] @ ''Hello''))"
    by code_simp
  have n: "\<forall>l r. ''Hello'' = l @ [NL, NL] @ r \<longrightarrow> l = [] \<or> NL \<in> set l"
  proof (intro allI impI)
    fix l r assume "''Hello'' = l @ [NL, NL] @ r"
    then have "NL \<in> set ''Hello''" by (metis append_Cons in_set_conv_decomp)
    then show "l = [] \<or> NL \<in> set l" by simp
  qed
  note inst = rename_twice_same_title [OF t, of "''Hello''" "entry_user_text ''Hello''"
      "entry_user_text (''T'' @ [NL, NL] @ ''Hello'')" _ _ _ _ _ "''Hello''"]
  from inst r n t show ?thesis by blast
qed



end
